theory Spec2Isabelle
  imports Main
begin

unbundle bit_operations_syntax

section \<open>Three Card Poker: rank table, hand evaluation, wager multipliers, bank settlement\<close>

text \<open>
  A shallow embedding of \<^verbatim>\<open>threecardlookup.py\<close> and \<^verbatim>\<open>threecardpoker.py\<close>.
  Python integers and the cells of the numpy arrays are modelled as \<^typ>\<open>int\<close>. In the
  rank table, the evaluation of hands and the wager multipliers every quantity the program
  stores (card codes below \<open>2 ^ 29\<close>, prime products below \<open>256 ^ 3\<close>, ranks up to 1146,
  multipliers up to 1000) is far inside the 32-bit cells; in the settlement against the bank
  the amounts are those of the caller, and the 32-bit width of the cells is written out. The
  bitwise operations of HOL on \<^typ>\<open>int\<close> are those of Python (two's complement of
  unbounded width). Arrays are lists; the memory-mapped files behind them are working storage,
  and of them only the failure to map an empty file is modelled.
\<close>

subsection \<open>Errors\<close>

datatype error = KeyError | ValueError

subsection \<open>ThreeCardLookup: the rank table\<close>

text \<open>The dictionary \<^verbatim>\<open>lookup\<close>: its entries in insertion order, one per key.\<close>

type_synonym dict = "(int \<times> int) list"

text \<open>\<^verbatim>\<open>lookup[k] = v\<close>: replaces the value of a key that is present, adds the key otherwise.\<close>

fun dict_set :: "int \<Rightarrow> int \<Rightarrow> dict \<Rightarrow> dict" where
  "dict_set k v [] = [(k, v)]"
| "dict_set k v ((k', v') # d) = (if k' = k then (k, v) # d else (k', v') # dict_set k v d)"

text \<open>\<^verbatim>\<open>k in lookup\<close>.\<close>

definition dict_has :: "dict \<Rightarrow> int \<Rightarrow> bool" where
  "dict_has d k = (map_of d k \<noteq> None)"

text \<open>\<^verbatim>\<open>lookup[k]\<close>, which raises \<^verbatim>\<open>KeyError\<close> for a key that is absent.\<close>

definition dict_get :: "dict \<Rightarrow> int \<Rightarrow> error + int" where
  "dict_get d k = (case map_of d k of None \<Rightarrow> Inl KeyError | Some v \<Rightarrow> Inr v)"

definition FLUSH_OFFSET :: int where "FLUSH_OFFSET = 430"
definition MIN_STRAIGHT_FLUSH :: int where "MIN_STRAIGHT_FLUSH = 1"
definition MAX_STRAIGHT_FLUSH :: int where "MAX_STRAIGHT_FLUSH = 12"
definition MIN_TRIPS :: int where "MIN_TRIPS = 13"
definition MAX_TRIPS :: int where "MAX_TRIPS = 25"
definition MIN_STRAIGHT :: int where "MIN_STRAIGHT = 431"
definition MAX_STRAIGHT :: int where "MAX_STRAIGHT = 442"
definition MIN_FLUSH :: int where "MIN_FLUSH = 443"
definition MAX_FLUSH :: int where "MAX_FLUSH = 716"
definition MIN_PAIR :: int where "MIN_PAIR = 717"
definition MAX_PAIR :: int where "MAX_PAIR = 872"
definition MIN_HIGH_CARD :: int where "MIN_HIGH_CARD = 873"
definition MAX_HIGH_CARD :: int where "MAX_HIGH_CARD = 1146"

definition PRIMES :: "int list" where
  "PRIMES = [41, 2, 3, 5, 7, 11, 13, 17, 19, 23, 29, 31, 37, 41]"

text \<open>\<^verbatim>\<open>xrange(a, b, -1)\<close>: the indices \<open>a, a - 1, \<dots>, b + 1\<close>.\<close>

definition xrange_down :: "nat \<Rightarrow> nat \<Rightarrow> nat list" where
  "xrange_down a b = rev [Suc b..<Suc a]"

text \<open>
  The bodies of the four loops of \<^verbatim>\<open>__init__\<close>, each on the state
  \<open>(lookup, rank)\<close> it updates.
\<close>

definition straights_step :: "nat \<Rightarrow> dict \<times> int \<Rightarrow> dict \<times> int" where
  "straights_step i = (\<lambda>(lookup, rank).
     (dict_set (PRIMES ! i * PRIMES ! (i - 1) * PRIMES ! (i - 2)) (rank + FLUSH_OFFSET) lookup,
      rank + 1))"

definition trips_step :: "nat \<Rightarrow> dict \<times> int \<Rightarrow> dict \<times> int" where
  "trips_step i = (\<lambda>(lookup, rank). (dict_set ((PRIMES ! i) ^ 3) rank lookup, rank + 1))"

definition high_card_step :: "nat \<Rightarrow> nat \<Rightarrow> nat \<Rightarrow> dict \<times> int \<Rightarrow> dict \<times> int" where
  "high_card_step c1 c2 c3 = (\<lambda>(lookup, rank).
     (let multiple = PRIMES ! c1 * PRIMES ! c2 * PRIMES ! c3
      in if \<not> dict_has lookup multiple then (dict_set multiple rank lookup, rank + 1)
         else (lookup, rank)))"

definition pairs_step :: "nat \<Rightarrow> nat \<Rightarrow> dict \<times> int \<Rightarrow> dict \<times> int" where
  "pairs_step i kicker = (\<lambda>(lookup, rank).
     if kicker \<noteq> i then (dict_set ((PRIMES ! i) ^ 2 * PRIMES ! kicker) rank lookup, rank + 1)
     else (lookup, rank))"

text \<open>
  \<^verbatim>\<open>ThreeCardLookup.__init__\<close>, from the dictionary it finds (the class attribute
  \<^verbatim>\<open>lookup\<close>, empty when the first instance is built) to the one it leaves.
\<close>

definition ThreeCardLookup_init :: "dict \<Rightarrow> dict" where
  "ThreeCardLookup_init lookup0 =
    (let (lookup1, rank1) = fold straights_step (xrange_down 13 1) (lookup0, MIN_STRAIGHT_FLUSH);
         (lookup2, rank2) = fold trips_step (xrange_down 13 0) (lookup1, rank1);
         (lookup3, rank3) =
            fold (\<lambda>c1. fold (\<lambda>c2. fold (high_card_step c1 c2) (xrange_down (c2 - 1) 0))
                                (xrange_down (c1 - 1) 0))
                 (xrange_down 13 0) (lookup2, MIN_HIGH_CARD);
         (lookup4, rank4) =
            fold (\<lambda>i. fold (pairs_step i) (xrange_down 13 0)) (xrange_down 13 0)
                 (lookup3, MIN_PAIR)
     in lookup4)"

text \<open>\<^verbatim>\<open>self.tc_lookup.lookup\<close> of a \<^verbatim>\<open>ThreeCardPoker\<close> object.\<close>

definition tc_lookup :: dict where
  "tc_lookup = ThreeCardLookup_init []"

subsection \<open>Cards\<close>

text \<open>
  Modelled from the spec: the card encoding of the external card library (\<^verbatim>\<open>deuces\<close>),
  which is not among the repository's files. A card is an integer with the rank's prime in
  the low byte, the rank's index (0 for a deuce up to 12 for an ace) in bits 8 to 11, one suit
  bit in bits 12 to 15 and one rank bit above bit 16; these are the fields the masks
  \<^verbatim>\<open>0xFF\<close>, \<^verbatim>\<open>(card >> 8) & 0xF\<close> and \<^verbatim>\<open>0xF000\<close> of the program read.
\<close>

datatype suit = Spades | Hearts | Diamonds | Clubs

fun suit_int :: "suit \<Rightarrow> int" where
  "suit_int Spades = 1"
| "suit_int Hearts = 2"
| "suit_int Diamonds = 4"
| "suit_int Clubs = 8"

definition CARD_PRIMES :: "int list" where
  "CARD_PRIMES = [2, 3, 5, 7, 11, 13, 17, 19, 23, 29, 31, 37, 41]"

definition Card_new :: "nat \<Rightarrow> suit \<Rightarrow> int" where
  "Card_new rank_int s =
    (let rank_prime = CARD_PRIMES ! rank_int;
         bitrank = push_bit 16 (push_bit rank_int 1);
         suit = push_bit 12 (suit_int s);
         rank = push_bit 8 (int rank_int)
     in bitrank OR suit OR rank OR rank_prime)"

definition get_rank_int :: "int \<Rightarrow> int" where
  "get_rank_int card_int = (drop_bit 8 card_int) AND 0xF"

definition FULL_DECK :: "int list" where
  "FULL_DECK = concat (map (\<lambda>r. map (Card_new r) [Spades, Hearts, Diamonds, Clubs]) [0..<13])"

text \<open>A hand of the game: three cards of the deck.\<close>

definition valid_hand :: "int list \<Rightarrow> bool" where
  "valid_hand hand = (length hand = 3 \<and> list_all (\<lambda>card. card \<in> set FULL_DECK) hand)"

subsection \<open>ThreeCardPoker: evaluating hands\<close>

text \<open>\<^verbatim>\<open>evaluate_hand\<close>: the loop over the cards, then the table lookup.\<close>

definition evaluate_hand :: "int list \<Rightarrow> error + int" where
  "evaluate_hand hand =
    (let (prime, suit) =
           fold (\<lambda>card (prime, suit). (prime * (card AND 0xFF), suit AND card)) hand (1, 0xF000);
         suited = (if suit \<noteq> 0 then 1 else 0)
     in case dict_get tc_lookup prime of
          Inl e \<Rightarrow> Inl e
        | Inr rank \<Rightarrow> Inr (rank - suited * FLUSH_OFFSET))"

text \<open>
  \<^verbatim>\<open>np.multiply.reduce\<close> and \<^verbatim>\<open>np.bitwise_or.reduce\<close> along a row, from the
  operation's identity.
\<close>

definition multiply_reduce :: "int list \<Rightarrow> int" where
  "multiply_reduce row = fold (\<lambda>x acc. acc * x) row 1"

definition bitwise_or_reduce :: "int list \<Rightarrow> int" where
  "bitwise_or_reduce row = fold (\<lambda>x acc. acc OR x) row 0"

text \<open>The vectorised lookup: it raises as soon as one key is absent.\<close>

fun tc_eval :: "int list \<Rightarrow> error + int list" where
  "tc_eval [] = Inr []"
| "tc_eval (x # xs) =
     (case dict_get tc_lookup x of
        Inl e \<Rightarrow> Inl e
      | Inr v \<Rightarrow> (case tc_eval xs of Inl e \<Rightarrow> Inl e | Inr vs \<Rightarrow> Inr (v # vs)))"

text \<open>
  \<^verbatim>\<open>evaluate_hands\<close>: the array-wide pipeline, one list per intermediate array. The
  intermediate arrays are memory-mapped files of one row per hand (lines 103 to 112), and a
  file of no rows cannot be mapped: the empty batch raises before anything is evaluated.
\<close>

definition evaluate_hands :: "int list list \<Rightarrow> error + int list" where
  "evaluate_hands hands =
    (if hands = [] then Inl ValueError
     else
       let hand_ranks = map (map (\<lambda>card. card AND 0xFF)) hands;
           hand_primes = map multiply_reduce hand_ranks;
           hand_flush_adj =
             map (\<lambda>hand. if (NOT (bitwise_or_reduce (map NOT hand))) AND 0xF000 \<noteq> 0
                          then FLUSH_OFFSET else 0) hands
       in case tc_eval hand_primes of
            Inl e \<Rightarrow> Inl e
          | Inr ranks \<Rightarrow> Inr (map2 (\<lambda>rank adj. rank - adj) ranks hand_flush_adj))"

subsection \<open>ThreeCardPoker: wager multipliers\<close>

text \<open>
  The 5-card evaluator of the external card library, which is not among the repository's
  files, is a parameter: the function \<^verbatim>\<open>evaluator._six\<close> on six cards and the band
  maxima of \<^verbatim>\<open>evaluator.table\<close> that \<^verbatim>\<open>GenerateMultipliers\<close> reads.
\<close>

record evaluator =
  six :: "int list \<Rightarrow> int"
  SC_MAX_STRAIGHT_FLUSH :: int
  SC_MAX_QUADS :: int
  SC_MAX_FULL_HOUSE :: int
  SC_MAX_FLUSH :: int
  SC_MAX_STRAIGHT :: int
  SC_MAX_TRIPS :: int

text \<open>One cell \<^verbatim>\<open>multipliers[round, hand, :]\<close> of the result.\<close>

record multipliers =
  Play :: int
  Ante :: int
  PairPlus :: int
  SixCard :: int

text \<open>
  \<^verbatim>\<open>np.copysign(x, y)\<close> on integers: the magnitude of \<open>x\<close> with the sign of \<open>y\<close>.
  An integer zero is converted to the float \<open>+0.0\<close>, whose sign is positive.
\<close>

definition copysign :: "int \<Rightarrow> int \<Rightarrow> int" where
  "copysign x y = (if y < 0 then - \<bar>x\<bar> else \<bar>x\<bar>)"

text \<open>The reference hands and ranks of the house way (lines 193 to 198).\<close>

definition ACE_HIGH :: "error + int" where
  "ACE_HIGH = evaluate_hand [Card_new 12 Clubs, Card_new 0 Diamonds, Card_new 2 Diamonds]"

definition KING_HIGH :: "error + int" where
  "KING_HIGH = evaluate_hand [Card_new 11 Clubs, Card_new 0 Diamonds, Card_new 1 Diamonds]"

definition QUEEN_HIGH :: "error + int" where
  "QUEEN_HIGH = evaluate_hand [Card_new 10 Clubs, Card_new 0 Diamonds, Card_new 1 Diamonds]"

definition ACE :: int where
  "ACE = get_rank_int (Card_new 12 Clubs)"

definition KING :: int where
  "KING = get_rank_int (Card_new 11 Clubs)"

definition QUEEN :: int where
  "QUEEN = get_rank_int (Card_new 10 Clubs)"

text \<open>
  The element-wise expressions of \<^verbatim>\<open>GenerateMultipliers\<close>, in the order of the source.
  \<open>ace_high\<close>, \<open>king_high\<close> and \<open>queen_high\<close> are the values of the three reference hands.
\<close>

definition win_lose :: "int \<Rightarrow> int \<Rightarrow> int" where
  "win_lose dealer_value player_value = copysign 1 (dealer_value - player_value)"

text \<open>Lines 219 to 221: the play decision of the house way, 1 to play and 0 to fold.\<close>

definition play_decision :: "int \<Rightarrow> int \<Rightarrow> int \<Rightarrow> int \<Rightarrow> int \<Rightarrow> int" where
  "play_decision ace_high king_high queen_high dealer_face_up player_value =
    (if player_value \<le> ace_high then 1
     else if player_value \<le> king_high
       then (if (drop_bit 8 dealer_face_up) AND 0xF < ACE then 1 else 0)
     else if player_value \<le> queen_high
       then (if (drop_bit 8 dealer_face_up) AND 0xF < KING then 1 else 0)
     else 0)"

text \<open>Lines 237 to 243.\<close>

definition pair_plus_multiplier :: "int \<Rightarrow> int \<Rightarrow> int" where
  "pair_plus_multiplier play player_value =
    (if play = 0 then - 1
     else if player_value > MAX_PAIR then - 1
     else if player_value > MAX_FLUSH then 1
     else if player_value > MAX_STRAIGHT then 3
     else if player_value > MAX_TRIPS then 6
     else if player_value > MAX_STRAIGHT_FLUSH then 30
     else if player_value > 1 then 40
     else 50)"

text \<open>Lines 251 to 253.\<close>

definition ante_multiplier :: "int \<Rightarrow> int \<Rightarrow> int \<Rightarrow> int \<Rightarrow> int" where
  "ante_multiplier queen_high play wl dealer_value =
    (if play = 0 then - 1
     else if wl > - 1 then wl
     else if dealer_value \<le> queen_high then - 1
     else 0)"

text \<open>Line 260: the final play multiplier, which overwrites the play decision.\<close>

definition play_multiplier :: "int \<Rightarrow> int \<Rightarrow> int \<Rightarrow> int \<Rightarrow> int" where
  "play_multiplier queen_high play wl dealer_value =
    (if dealer_value \<le> queen_high then play * wl else 0)"

text \<open>Lines 319 to 325, on the value the 5-card evaluator gave to the six cards.\<close>

definition six_card_multiplier :: "evaluator \<Rightarrow> int \<Rightarrow> int" where
  "six_card_multiplier orc v =
    (if v > SC_MAX_TRIPS orc then - 1
     else if v > SC_MAX_STRAIGHT orc then 5
     else if v > SC_MAX_FLUSH orc then 10
     else if v > SC_MAX_FULL_HOUSE orc then 15
     else if v > SC_MAX_QUADS orc then 25
     else if v > SC_MAX_STRAIGHT_FLUSH orc then 50
     else if v > 1 then 200
     else 1000)"

text \<open>\<^verbatim>\<open>a.reshape(-1, k)\<close> of a flat array whose length is a multiple of \<open>k\<close>.\<close>

definition reshape_rows :: "nat \<Rightarrow> 'a list \<Rightarrow> 'a list list" where
  "reshape_rows k xs = map (\<lambda>r. take k (drop (r * k) xs)) [0..<length xs div k]"

text \<open>The stepped slice \<^verbatim>\<open>a[::k]\<close>, for \<open>k > 0\<close>.\<close>

definition step_slice :: "nat \<Rightarrow> 'a list \<Rightarrow> 'a list" where
  "step_slice k xs = map (\<lambda>j. xs ! (j * k)) [0..<(length xs + k - 1) div k]"

text \<open>
  The documented input format: \<open>rounds * all_hands\<close> hands of three cards each, and one
  value for each hand. Arrays that are not of this format are rejected (numpy raises on the
  reshapes and on the element-wise operations between them).
\<close>

definition well_shaped :: "int list list \<Rightarrow> int list \<Rightarrow> nat \<Rightarrow> bool" where
  "well_shaped hands hand_values all_hands =
    (length hand_values = length hands \<and> length hands mod all_hands = 0
     \<and> list_all (\<lambda>hand. length hand = 3) hands)"

text \<open>
  \<^verbatim>\<open>GenerateMultipliers\<close> up to line 221: the array \<^verbatim>\<open>play_multipliers\<close> when it
  holds the play decisions, one row for each round and one entry for each player.
\<close>

definition play_decisions :: "int list list \<Rightarrow> int list \<Rightarrow> nat \<Rightarrow> error + int list list" where
  "play_decisions hands hand_values num_players =
    (let all_hands = num_players + 1;
         num_rounds = length hands div all_hands
     in if \<not> well_shaped hands hand_values all_hands then Inl ValueError
        else
          let player_values = map tl (reshape_rows all_hands hand_values);
              dealer_face_up = step_slice (all_hands * 3) (concat hands)
          in case ACE_HIGH of Inl e \<Rightarrow> Inl e | Inr ace_high \<Rightarrow>
             case KING_HIGH of Inl e \<Rightarrow> Inl e | Inr king_high \<Rightarrow>
             case QUEEN_HIGH of Inl e \<Rightarrow> Inl e | Inr queen_high \<Rightarrow>
               Inr (map (\<lambda>r. map (\<lambda>i. play_decision ace_high king_high queen_high
                                        (dealer_face_up ! r) (player_values ! r ! i))
                                  [0..<num_players])
                        [0..<num_rounds]))"

text \<open>
  The four multipliers of one player in one round, from the play decision of the hand
  (lines 237 to 260 and 319 to 325).
\<close>

definition element_multipliers ::
  "evaluator \<Rightarrow> int \<Rightarrow> int \<Rightarrow> int \<Rightarrow> int \<Rightarrow> int list \<Rightarrow> multipliers" where
  "element_multipliers orc queen_high play dealer_value player_value eval_hand =
    (let wl = win_lose dealer_value player_value
     in \<lparr> Play = play_multiplier queen_high play wl dealer_value,
          Ante = ante_multiplier queen_high play wl dealer_value,
          PairPlus = pair_plus_multiplier play player_value,
          SixCard = six_card_multiplier orc (six orc eval_hand) \<rparr>)"

text \<open>
  \<^verbatim>\<open>GenerateMultipliers\<close>: the play decisions, then the multipliers of every player
  of every round. \<^verbatim>\<open>eval_hands[i]\<close> holds, for each round, the six cards of the dealer
  and of player \<open>i\<close>.
\<close>

definition GenerateMultipliers ::
  "evaluator \<Rightarrow> int list list \<Rightarrow> int list \<Rightarrow> nat \<Rightarrow> error + multipliers list list" where
  "GenerateMultipliers orc hands hand_values num_players =
    (case play_decisions hands hand_values num_players of
       Inl e \<Rightarrow> Inl e
     | Inr plays \<Rightarrow>
        (case QUEEN_HIGH of
           Inl e \<Rightarrow> Inl e
         | Inr queen_high \<Rightarrow>
            let all_hands = num_players + 1;
                num_rounds = length hands div all_hands;
                splittable_values = reshape_rows all_hands hand_values;
                dealer_values = map hd splittable_values;
                player_values = map tl splittable_values;
                eval_hands =
                  map (\<lambda>i. map (\<lambda>round_hands. concat (take 2 (step_slice (i + 1) round_hands)))
                              (reshape_rows all_hands hands))
                      [0..<num_players]
            in Inr (map (\<lambda>r. map (\<lambda>i. element_multipliers orc queen_high (plays ! r ! i)
                                         (dealer_values ! r) (player_values ! r ! i)
                                         (eval_hands ! i ! r))
                                   [0..<num_players])
                         [0..<num_rounds])))"

subsection \<open>ThreeCardPoker: settlement against the bank\<close>

text \<open>
  The payouts are the cells of an \<^verbatim>\<open>int32\<close> array, and \<^verbatim>\<open>cum_payout\<close> and
  \<^verbatim>\<open>adj_payouts\<close> are declared \<^verbatim>\<open>dtype='int32'\<close> (lines 354 and 355): here the
  magnitudes of the amounts matter, so the width of the cells is written out. A number kept
  in such a cell is read back as the two's complement reading of its low 32 bits.
\<close>

definition int32 :: "int \<Rightarrow> int" where
  "int32 x = (x + 2 ^ 31) mod 2 ^ 32 - 2 ^ 31"

text \<open>
  \<^verbatim>\<open>np.absolute\<close> on an \<^verbatim>\<open>int32\<close> cell: the result has the type of the cell, so the
  absolute value of \<open>- (2 ^ 31)\<close> is \<open>- (2 ^ 31)\<close> again.
\<close>

definition absolute :: "int \<Rightarrow> int" where
  "absolute x = int32 \<bar>x\<bar>"

text \<open>
  \<^verbatim>\<open>cum_payout[:] = np.absolute(payouts).cumsum(axis=1)\<close> on one row (line 358): the
  running total of the absolute values, as the 32-bit cell keeps it.
\<close>

definition cum_payout :: "int list \<Rightarrow> int list" where
  "cum_payout payouts =
    map (\<lambda>i. int32 (sum_list (take (Suc i) (map absolute payouts)))) [0..<length payouts]"

text \<open>
  \<^verbatim>\<open>adj_payouts[:, i]\<close> on one row: line 362 for the first spot and the body of the loop
  (lines 370 to 372) for the others. The bank amount is a Python integer that fits a cell;
  \<^verbatim>\<open>bank_amount - cum_payout[:, i - 1]\<close> is computed in the type of the cells, and the
  value chosen by \<^verbatim>\<open>np.where\<close> is stored in a cell of \<^verbatim>\<open>adj_payouts\<close>.
\<close>

definition adj_payout_at :: "int \<Rightarrow> int list \<Rightarrow> nat \<Rightarrow> int" where
  "adj_payout_at bank_amount payouts i =
    (let cum = cum_payout payouts
     in if i = 0
        then int32 (if cum ! 0 < bank_amount then payouts ! 0
                    else copysign bank_amount (payouts ! 0))
        else int32 (if cum ! i < bank_amount then payouts ! i
                    else if cum ! (i - 1) < bank_amount
                      then copysign (int32 (bank_amount - cum ! (i - 1))) (payouts ! i)
                    else 0))"

definition adjust_round :: "int \<Rightarrow> int list \<Rightarrow> int list" where
  "adjust_round bank_amount payouts = map (adj_payout_at bank_amount payouts) [0..<length payouts]"

text \<open>
  \<^verbatim>\<open>AdjustForAction\<close> on an array of shape \<open>(num_rounds, num_players, 4)\<close>: each round
  is flattened to its \<open>num_players * 4\<close> spots, settled, and given its shape back.
\<close>

definition payouts_shaped :: "int list list list \<Rightarrow> bool" where
  "payouts_shaped payouts =
    (list_all (\<lambda>round. length round = length (hd payouts)
                 \<and> list_all (\<lambda>spots. length spots = 4) round) payouts)"

definition AdjustForAction :: "int list list list \<Rightarrow> int \<Rightarrow> error + int list list list" where
  "AdjustForAction payouts bank_amount =
    (if \<not> payouts_shaped payouts then Inl ValueError
     else Inr (map (\<lambda>round. reshape_rows 4 (adjust_round bank_amount (concat round))) payouts))"


subsection \<open>The rank table, entry by entry\<close>

text \<open>
  The keys the four loops of the constructor set, in the order of the loops, and the table
  they leave. These describe the result of \<^const>\<open>ThreeCardLookup_init\<close>; the lemmas below
  derive them from it.
\<close>

fun number_from :: "int \<Rightarrow> int list \<Rightarrow> dict" where
  "number_from r [] = []"
| "number_from r (k # ks) = (k, r) # number_from (r + 1) ks"

definition ins :: "int \<Rightarrow> int \<Rightarrow> dict \<times> int \<Rightarrow> dict \<times> int" where
  "ins off k = (\<lambda>(d, r). (dict_set k (r + off) d, r + 1))"

definition ins_new :: "int \<Rightarrow> dict \<times> int \<Rightarrow> dict \<times> int" where
  "ins_new k = (\<lambda>(d, r). if \<not> dict_has d k then (dict_set k r d, r + 1) else (d, r))"

definition straight_keys :: "int list" where
  "straight_keys =
     map (\<lambda>i. PRIMES ! i * PRIMES ! (i - 1) * PRIMES ! (i - 2)) (xrange_down 13 1)"

definition trips_keys :: "int list" where
  "trips_keys = map (\<lambda>i. (PRIMES ! i) ^ 3) (xrange_down 13 0)"

definition high_triples :: "(nat \<times> nat \<times> nat) list" where
  "high_triples = concat (map (\<lambda>c1. map (Pair c1)
       (concat (map (\<lambda>c2. map (Pair c2) (xrange_down (c2 - 1) 0)) (xrange_down (c1 - 1) 0))))
     (xrange_down 13 0))"

definition high_keys :: "int list" where
  "high_keys = map (\<lambda>(c1, c2, c3). PRIMES ! c1 * PRIMES ! c2 * PRIMES ! c3) high_triples"

definition high_card_keys :: "int list" where
  "high_card_keys = filter (\<lambda>k. k \<notin> set straight_keys) high_keys"

definition pair_keys :: "int list" where
  "pair_keys = map (\<lambda>(i, kicker). (PRIMES ! i) ^ 2 * PRIMES ! kicker)
     (filter (\<lambda>(i, kicker). kicker \<noteq> i)
        (concat (map (\<lambda>i. map (Pair i) (xrange_down 13 0)) (xrange_down 13 0))))"

definition rank_table :: dict where
  "rank_table =
    [     (47027, 431), (33263, 432), (20677, 433), (12673, 434), (7429, 435), (4199, 436),
     (2431, 437), (1001, 438), (385, 439), (105, 440), (30, 441), (246, 442), (68921, 13),
     (50653, 14), (29791, 15), (24389, 16), (12167, 17), (6859, 18), (4913, 19), (2197, 20),
     (1331, 21), (343, 22), (125, 23), (27, 24), (8, 25), (43993, 873), (34891, 874),
     (28823, 875), (25789, 876), (19721, 877), (16687, 878), (10619, 879), (7585, 880),
     (4551, 881), (3034, 882), (36859, 883), (29233, 884), (24149, 885), (21607, 886),
     (16523, 887), (13981, 888), (8897, 889), (6355, 890), (3813, 891), (2542, 892),
     (27347, 893), (22591, 894), (20213, 895), (15457, 896), (13079, 897), (8323, 898),
     (5945, 899), (3567, 900), (2378, 901), (17917, 902), (16031, 903), (12259, 904),
     (10373, 905), (6601, 906), (4715, 907), (2829, 908), (1886, 909), (13243, 910),
     (10127, 911), (8569, 912), (5453, 913), (3895, 914), (2337, 915), (1558, 916),
     (9061, 917), (7667, 918), (4879, 919), (3485, 920), (2091, 921), (1394, 922), (5863, 923),
     (3731, 924), (2665, 925), (1599, 926), (1066, 927), (3157, 928), (2255, 929), (1353, 930),
     (902, 931), (1435, 932), (861, 933), (574, 934), (615, 935), (410, 936), (26381, 937),
     (21793, 938), (19499, 939), (14911, 940), (12617, 941), (8029, 942), (5735, 943),
     (3441, 944), (2294, 945), (24679, 946), (20387, 947), (18241, 948), (13949, 949),
     (11803, 950), (7511, 951), (5365, 952), (3219, 953), (2146, 954), (16169, 955),
     (14467, 956), (11063, 957), (9361, 958), (5957, 959), (4255, 960), (2553, 961),
     (1702, 962), (11951, 963), (9139, 964), (7733, 965), (4921, 966), (3515, 967),
     (2109, 968), (1406, 969), (8177, 970), (6919, 971), (4403, 972), (3145, 973), (1887, 974),
     (1258, 975), (5291, 976), (3367, 977), (2405, 978), (1443, 979), (962, 980), (2849, 981),
     (2035, 982), (1221, 983), (814, 984), (1295, 985), (777, 986), (518, 987), (555, 988),
     (370, 989), (222, 990), (17081, 991), (15283, 992), (11687, 993), (9889, 994),
     (6293, 995), (4495, 996), (2697, 997), (1798, 998), (13547, 999), (12121, 1000),
     (9269, 1001), (7843, 1002), (4991, 1003), (3565, 1004), (2139, 1005), (1426, 1006),
     (10013, 1007), (7657, 1008), (6479, 1009), (4123, 1010), (2945, 1011), (1767, 1012),
     (1178, 1013), (6851, 1014), (5797, 1015), (3689, 1016), (2635, 1017), (1581, 1018),
     (1054, 1019), (4433, 1020), (2821, 1021), (2015, 1022), (1209, 1023), (806, 1024),
     (2387, 1025), (1705, 1026), (1023, 1027), (682, 1028), (1085, 1029), (651, 1030),
     (434, 1031), (465, 1032), (310, 1033), (186, 1034), (11339, 1035), (8671, 1036),
     (7337, 1037), (4669, 1038), (3335, 1039), (2001, 1040), (1334, 1041), (9367, 1042),
     (7163, 1043), (6061, 1044), (3857, 1045), (2755, 1046), (1653, 1047), (1102, 1048),
     (6409, 1049), (5423, 1050), (3451, 1051), (2465, 1052), (1479, 1053), (986, 1054),
     (4147, 1055), (2639, 1056), (1885, 1057), (1131, 1058), (754, 1059), (2233, 1060),
     (1595, 1061), (957, 1062), (638, 1063), (1015, 1064), (609, 1065), (406, 1066),
     (435, 1067), (290, 1068), (174, 1069), (5681, 1070), (4807, 1071), (3059, 1072),
     (2185, 1073), (1311, 1074), (874, 1075), (5083, 1076), (4301, 1077), (2737, 1078),
     (1955, 1079), (1173, 1080), (782, 1081), (3289, 1082), (2093, 1083), (1495, 1084),
     (897, 1085), (598, 1086), (1771, 1087), (1265, 1088), (759, 1089), (506, 1090),
     (805, 1091), (483, 1092), (322, 1093), (345, 1094), (230, 1095), (138, 1096),
     (3553, 1097), (2261, 1098), (1615, 1099), (969, 1100), (646, 1101), (2717, 1102),
     (1729, 1103), (1235, 1104), (741, 1105), (494, 1106), (1463, 1107), (1045, 1108),
     (627, 1109), (418, 1110), (665, 1111), (399, 1112), (266, 1113), (285, 1114), (190, 1115),
     (114, 1116), (1547, 1117), (1105, 1118), (663, 1119), (442, 1120), (1309, 1121),
     (935, 1122), (561, 1123), (374, 1124), (595, 1125), (357, 1126), (238, 1127), (255, 1128),
     (170, 1129), (102, 1130), (715, 1131), (429, 1132), (286, 1133), (455, 1134), (273, 1135),
     (182, 1136), (195, 1137), (130, 1138), (78, 1139), (231, 1140), (154, 1141), (165, 1142),
     (110, 1143), (66, 1144), (70, 1145), (42, 1146), (62197, 717), (52111, 718), (48749, 719),
     (38663, 720), (31939, 721), (28577, 722), (21853, 723), (18491, 724), (11767, 725),
     (8405, 726), (5043, 727), (3362, 728), (56129, 729), (42439, 730), (39701, 731),
     (31487, 732), (26011, 733), (23273, 734), (17797, 735), (15059, 736), (9583, 737),
     (6845, 738), (4107, 739), (2738, 740), (39401, 741), (35557, 742), (27869, 743),
     (22103, 744), (18259, 745), (16337, 746), (12493, 747), (10571, 748), (6727, 749),
     (4805, 750), (2883, 751), (1922, 752), (34481, 753), (31117, 754), (26071, 755),
     (19343, 756), (15979, 757), (14297, 758), (10933, 759), (9251, 760), (5887, 761),
     (4205, 762), (2523, 763), (1682, 764), (21689, 765), (19573, 766), (16399, 767),
     (15341, 768), (10051, 769), (8993, 770), (6877, 771), (5819, 772), (3703, 773),
     (2645, 774), (1587, 775), (1058, 776), (14801, 777), (13357, 778), (11191, 779),
     (10469, 780), (8303, 781), (6137, 782), (4693, 783), (3971, 784), (2527, 785),
     (1805, 786), (1083, 787), (722, 788), (11849, 789), (10693, 790), (8959, 791),
     (8381, 792), (6647, 793), (5491, 794), (3757, 795), (3179, 796), (2023, 797), (1445, 798),
     (867, 799), (578, 800), (6929, 801), (6253, 802), (5239, 803), (4901, 804), (3887, 805),
     (3211, 806), (2873, 807), (1859, 808), (1183, 809), (845, 810), (507, 811), (338, 812),
     (4961, 813), (4477, 814), (3751, 815), (3509, 816), (2783, 817), (2299, 818), (2057, 819),
     (1573, 820), (847, 821), (605, 822), (363, 823), (242, 824), (2009, 825), (1813, 826),
     (1519, 827), (1421, 828), (1127, 829), (931, 830), (833, 831), (637, 832), (539, 833),
     (245, 834), (147, 835), (98, 836), (1025, 837), (925, 838), (775, 839), (725, 840),
     (575, 841), (475, 842), (425, 843), (325, 844), (275, 845), (175, 846), (75, 847),
     (50, 848), (369, 849), (333, 850), (279, 851), (261, 852), (207, 853), (171, 854),
     (153, 855), (117, 856), (99, 857), (63, 858), (45, 859), (18, 860), (164, 861),
     (148, 862), (124, 863), (116, 864), (92, 865), (76, 866), (68, 867), (52, 868), (44, 869),
     (28, 870), (20, 871), (12, 872)]"

text \<open>
  The 3-rank combinations: the multisets of three rank indices 1 (deuce) to 13 (ace), as
  descending triples, and the key of a combination.
\<close>

definition rank_combinations :: "(nat \<times> nat \<times> nat) list" where
  "rank_combinations =
     concat (map (\<lambda>c1. concat (map (\<lambda>c2. map (\<lambda>c3. (c1, c2, c3)) [1..<Suc c2]) [1..<Suc c1]))
       [1..<14])"

definition combination_key :: "nat \<times> nat \<times> nat \<Rightarrow> int" where
  "combination_key = (\<lambda>(c1, c2, c3). PRIMES ! c1 * PRIMES ! c2 * PRIMES ! c3)"

text \<open>The conjunction of the cards of a hand, for the flush test.\<close>

fun and_all :: "int list \<Rightarrow> int" where
  "and_all [] = - 1"
| "and_all (c # cs) = c AND and_all cs"

subsection \<open>An example round\<close>

text \<open>
  A dealer with ace, king, deuce, a first player with the same ranks in other suits, and a
  second player with seven, five, three, all unsuited; and an evaluator with the band maxima
  of the card library that gives every six cards the value 7462.
\<close>

definition example_evaluator :: evaluator where
  "example_evaluator = \<lparr> six = (\<lambda>cards. 7462), SC_MAX_STRAIGHT_FLUSH = 10, SC_MAX_QUADS = 166,
     SC_MAX_FULL_HOUSE = 322, SC_MAX_FLUSH = 1599, SC_MAX_STRAIGHT = 1609, SC_MAX_TRIPS = 2467 \<rparr>"

definition example_hands :: "int list list" where
  "example_hands =
    [[Card_new 12 Clubs, Card_new 11 Diamonds, Card_new 0 Hearts],
     [Card_new 12 Diamonds, Card_new 11 Hearts, Card_new 0 Spades],
     [Card_new 5 Diamonds, Card_new 3 Hearts, Card_new 1 Spades]]"

section \<open>The rank table\<close>

subsection \<open>Folds that set keys\<close>

lemma dict_has_iff: "dict_has d k \<longleftrightarrow> k \<in> fst ` set d"
  by (simp add: dict_has_def map_of_eq_None_iff)

lemma dict_set_fresh: "k \<notin> fst ` set d \<Longrightarrow> dict_set k v d = d @ [(k, v)]"
  by (induction d) auto

lemma fold_ins:
  "distinct ks \<Longrightarrow> set ks \<inter> fst ` set d = {} \<Longrightarrow>
   fold (ins off) ks (d, r) = (d @ number_from (r + off) ks, r + int (length ks))"
proof (induction ks arbitrary: d r)
  case Nil
  then show ?case by simp
next
  case (Cons k ks)
  have fresh: "k \<notin> fst ` set d" using Cons.prems by auto
  have disj: "set ks \<inter> fst ` set (d @ [(k, r + off)]) = {}" using Cons.prems by auto
  have "fold (ins off) (k # ks) (d, r) = fold (ins off) ks (d @ [(k, r + off)], r + 1)"
    by (simp add: ins_def dict_set_fresh [OF fresh])
  also have "\<dots> = ((d @ [(k, r + off)]) @ number_from (r + 1 + off) ks, r + 1 + int (length ks))"
    using Cons.prems disj by (intro Cons.IH) auto
  finally show ?case by (simp add: add.commute add.left_commute)
qed

lemma fold_ins_new:
  "distinct ks \<Longrightarrow>
   fold ins_new ks (d, r) =
     (d @ number_from r (filter (\<lambda>k. \<not> dict_has d k) ks),
      r + int (length (filter (\<lambda>k. \<not> dict_has d k) ks)))"
proof (induction ks arbitrary: d r)
  case Nil
  then show ?case by simp
next
  case (Cons k ks)
  show ?case
  proof (cases "dict_has d k")
    case True
    then show ?thesis using Cons by (simp add: ins_new_def)
  next
    case False
    then have fresh: "k \<notin> fst ` set d" by (simp add: dict_has_iff)
    have same: "filter (\<lambda>k'. \<not> dict_has (d @ [(k, r)]) k') ks = filter (\<lambda>k'. \<not> dict_has d k') ks"
      using Cons.prems by (intro filter_cong) (auto simp: dict_has_iff)
    have "fold ins_new (k # ks) (d, r) = fold ins_new ks (d @ [(k, r)], r + 1)"
      using False by (simp add: ins_new_def dict_set_fresh [OF fresh])
    also have "\<dots> = ((d @ [(k, r)]) @ number_from (r + 1) (filter (\<lambda>k'. \<not> dict_has d k') ks),
        r + 1 + int (length (filter (\<lambda>k'. \<not> dict_has d k') ks)))"
      using Cons.prems by (simp add: Cons.IH same)
    finally show ?thesis using False by simp
  qed
qed

lemma fold_nested:
  "fold (\<lambda>x. fold (f x) (g x)) xs = fold (\<lambda>(x, y). f x y) (concat (map (\<lambda>x. map (Pair x) (g x)) xs))"
  by (induction xs) (auto simp: fold_map comp_def)


subsection \<open>The keys of the four loops\<close>

lemma straight_keys_eq: "straight_keys = [47027, 33263, 20677, 12673, 7429, 4199, 2431, 1001, 385, 105, 30, 246]"
  by code_simp

lemma trips_keys_eq: "trips_keys = [68921, 50653, 29791, 24389, 12167, 6859, 4913, 2197, 1331, 343, 125, 27, 8]"
  by code_simp

lemma high_keys_eq: "high_keys =
    [     47027, 43993, 34891, 28823, 25789, 19721, 16687, 10619, 7585, 4551, 3034, 36859, 29233,
     24149, 21607, 16523, 13981, 8897, 6355, 3813, 2542, 27347, 22591, 20213, 15457, 13079,
     8323, 5945, 3567, 2378, 17917, 16031, 12259, 10373, 6601, 4715, 2829, 1886, 13243, 10127,
     8569, 5453, 3895, 2337, 1558, 9061, 7667, 4879, 3485, 2091, 1394, 5863, 3731, 2665, 1599,
     1066, 3157, 2255, 1353, 902, 1435, 861, 574, 615, 410, 246, 33263, 26381, 21793, 19499,
     14911, 12617, 8029, 5735, 3441, 2294, 24679, 20387, 18241, 13949, 11803, 7511, 5365, 3219,
     2146, 16169, 14467, 11063, 9361, 5957, 4255, 2553, 1702, 11951, 9139, 7733, 4921, 3515,
     2109, 1406, 8177, 6919, 4403, 3145, 1887, 1258, 5291, 3367, 2405, 1443, 962, 2849, 2035,
     1221, 814, 1295, 777, 518, 555, 370, 222, 20677, 17081, 15283, 11687, 9889, 6293, 4495,
     2697, 1798, 13547, 12121, 9269, 7843, 4991, 3565, 2139, 1426, 10013, 7657, 6479, 4123,
     2945, 1767, 1178, 6851, 5797, 3689, 2635, 1581, 1054, 4433, 2821, 2015, 1209, 806, 2387,
     1705, 1023, 682, 1085, 651, 434, 465, 310, 186, 12673, 11339, 8671, 7337, 4669, 3335,
     2001, 1334, 9367, 7163, 6061, 3857, 2755, 1653, 1102, 6409, 5423, 3451, 2465, 1479, 986,
     4147, 2639, 1885, 1131, 754, 2233, 1595, 957, 638, 1015, 609, 406, 435, 290, 174, 7429,
     5681, 4807, 3059, 2185, 1311, 874, 5083, 4301, 2737, 1955, 1173, 782, 3289, 2093, 1495,
     897, 598, 1771, 1265, 759, 506, 805, 483, 322, 345, 230, 138, 4199, 3553, 2261, 1615, 969,
     646, 2717, 1729, 1235, 741, 494, 1463, 1045, 627, 418, 665, 399, 266, 285, 190, 114, 2431,
     1547, 1105, 663, 442, 1309, 935, 561, 374, 595, 357, 238, 255, 170, 102, 1001, 715, 429,
     286, 455, 273, 182, 195, 130, 78, 385, 231, 154, 165, 110, 66, 105, 70, 42, 30]"
  by code_simp

lemma pair_keys_eq: "pair_keys =
    [     62197, 52111, 48749, 38663, 31939, 28577, 21853, 18491, 11767, 8405, 5043, 3362, 56129,
     42439, 39701, 31487, 26011, 23273, 17797, 15059, 9583, 6845, 4107, 2738, 39401, 35557,
     27869, 22103, 18259, 16337, 12493, 10571, 6727, 4805, 2883, 1922, 34481, 31117, 26071,
     19343, 15979, 14297, 10933, 9251, 5887, 4205, 2523, 1682, 21689, 19573, 16399, 15341,
     10051, 8993, 6877, 5819, 3703, 2645, 1587, 1058, 14801, 13357, 11191, 10469, 8303, 6137,
     4693, 3971, 2527, 1805, 1083, 722, 11849, 10693, 8959, 8381, 6647, 5491, 3757, 3179, 2023,
     1445, 867, 578, 6929, 6253, 5239, 4901, 3887, 3211, 2873, 1859, 1183, 845, 507, 338, 4961,
     4477, 3751, 3509, 2783, 2299, 2057, 1573, 847, 605, 363, 242, 2009, 1813, 1519, 1421,
     1127, 931, 833, 637, 539, 245, 147, 98, 1025, 925, 775, 725, 575, 475, 425, 325, 275, 175,
     75, 50, 369, 333, 279, 261, 207, 171, 153, 117, 99, 63, 45, 18, 164, 148, 124, 116, 92,
     76, 68, 52, 44, 28, 20, 12]"
  by code_simp

text \<open>Rules that decide distinctness and membership on lists of numerals.\<close>

lemmas numeral_list_rules =
  distinct.simps list.set insert_iff empty_iff filter.simps list.pred_inject
  numeral_eq_iff num.simps simp_thms if_True if_False

lemma disjoint_by_list_all: "list_all (\<lambda>k. k \<notin> set ys) xs \<Longrightarrow> set xs \<inter> set ys = {}"
  by (auto simp: list_all_iff)

lemma distinct_high_keys: "distinct high_keys"
  unfolding high_keys_eq by (simp only: numeral_list_rules)

lemma distinct_pair_keys: "distinct pair_keys"
  unfolding pair_keys_eq by (simp only: numeral_list_rules)

lemma high_card_keys_eq: "high_card_keys =
    [     43993, 34891, 28823, 25789, 19721, 16687, 10619, 7585, 4551, 3034, 36859, 29233, 24149,
     21607, 16523, 13981, 8897, 6355, 3813, 2542, 27347, 22591, 20213, 15457, 13079, 8323,
     5945, 3567, 2378, 17917, 16031, 12259, 10373, 6601, 4715, 2829, 1886, 13243, 10127, 8569,
     5453, 3895, 2337, 1558, 9061, 7667, 4879, 3485, 2091, 1394, 5863, 3731, 2665, 1599, 1066,
     3157, 2255, 1353, 902, 1435, 861, 574, 615, 410, 26381, 21793, 19499, 14911, 12617, 8029,
     5735, 3441, 2294, 24679, 20387, 18241, 13949, 11803, 7511, 5365, 3219, 2146, 16169, 14467,
     11063, 9361, 5957, 4255, 2553, 1702, 11951, 9139, 7733, 4921, 3515, 2109, 1406, 8177,
     6919, 4403, 3145, 1887, 1258, 5291, 3367, 2405, 1443, 962, 2849, 2035, 1221, 814, 1295,
     777, 518, 555, 370, 222, 17081, 15283, 11687, 9889, 6293, 4495, 2697, 1798, 13547, 12121,
     9269, 7843, 4991, 3565, 2139, 1426, 10013, 7657, 6479, 4123, 2945, 1767, 1178, 6851, 5797,
     3689, 2635, 1581, 1054, 4433, 2821, 2015, 1209, 806, 2387, 1705, 1023, 682, 1085, 651,
     434, 465, 310, 186, 11339, 8671, 7337, 4669, 3335, 2001, 1334, 9367, 7163, 6061, 3857,
     2755, 1653, 1102, 6409, 5423, 3451, 2465, 1479, 986, 4147, 2639, 1885, 1131, 754, 2233,
     1595, 957, 638, 1015, 609, 406, 435, 290, 174, 5681, 4807, 3059, 2185, 1311, 874, 5083,
     4301, 2737, 1955, 1173, 782, 3289, 2093, 1495, 897, 598, 1771, 1265, 759, 506, 805, 483,
     322, 345, 230, 138, 3553, 2261, 1615, 969, 646, 2717, 1729, 1235, 741, 494, 1463, 1045,
     627, 418, 665, 399, 266, 285, 190, 114, 1547, 1105, 663, 442, 1309, 935, 561, 374, 595,
     357, 238, 255, 170, 102, 715, 429, 286, 455, 273, 182, 195, 130, 78, 231, 154, 165, 110,
     66, 70, 42]"
  unfolding high_card_keys_def high_keys_eq straight_keys_eq
  by (simp only: numeral_list_rules cong: if_weak_cong)

lemma keys_number_from [simp]: "map fst (number_from r ks) = ks"
  by (induction ks arbitrary: r) auto

lemma set_keys_number_from [simp]: "fst ` set (number_from r ks) = set ks"
  by (metis keys_number_from set_map)

lemma length_number_from [simp]: "length (number_from r ks) = length ks"
  by (induction ks arbitrary: r) auto

lemma straights_step_ins:
  "straights_step = (\<lambda>i. ins FLUSH_OFFSET (PRIMES ! i * PRIMES ! (i - 1) * PRIMES ! (i - 2)))"
  by (rule ext) (simp add: straights_step_def ins_def)

lemma trips_step_ins: "trips_step = (\<lambda>i. ins 0 ((PRIMES ! i) ^ 3))"
  by (rule ext) (simp add: trips_step_def ins_def)

lemma high_card_step_ins:
  "high_card_step = (\<lambda>c1 c2 c3. ins_new (PRIMES ! c1 * PRIMES ! c2 * PRIMES ! c3))"
  by (intro ext) (simp add: high_card_step_def ins_new_def Let_def)

lemma pairs_step_ins:
  "pairs_step = (\<lambda>i kicker. if kicker \<noteq> i then ins 0 ((PRIMES ! i) ^ 2 * PRIMES ! kicker) else id)"
  by (intro ext) (auto simp add: pairs_step_def ins_def)

lemma fold_if_filter: "fold (\<lambda>x. if P x then f x else id) xs = fold f (filter P xs)"
  by (induction xs) auto

lemma fold_straights: "fold straights_step (xrange_down 13 1) = fold (ins FLUSH_OFFSET) straight_keys"
  unfolding straight_keys_def fold_map comp_def straights_step_ins ..

lemma fold_trips: "fold trips_step (xrange_down 13 0) = fold (ins 0) trips_keys"
  unfolding trips_keys_def fold_map comp_def trips_step_ins ..

lemma fold_high:
  "fold (\<lambda>c1. fold (\<lambda>c2. fold (high_card_step c1 c2) (xrange_down (c2 - 1) 0))
                                (xrange_down (c1 - 1) 0)) (xrange_down 13 0) = fold ins_new high_keys"
  unfolding fold_nested high_keys_def high_triples_def fold_map comp_def
    high_card_step_ins case_prod_unfold
  by (simp add: fold_map comp_def case_prod_unfold)

lemma fold_pairs:
  "fold (\<lambda>i. fold (pairs_step i) (xrange_down 13 0)) (xrange_down 13 0) = fold (ins 0) pair_keys"
proof -
  have "fold (\<lambda>i. fold (pairs_step i) (xrange_down 13 0)) (xrange_down 13 0)
      = fold (\<lambda>p. if snd p \<noteq> fst p then ins 0 ((PRIMES ! fst p) ^ 2 * PRIMES ! snd p) else id)
          (concat (map (\<lambda>i. map (Pair i) (xrange_down 13 0)) (xrange_down 13 0)))"
    unfolding fold_nested pairs_step_ins case_prod_unfold ..
  also have "\<dots> = fold (ins 0) pair_keys"
    unfolding fold_if_filter pair_keys_def fold_map comp_def case_prod_unfold ..
  finally show ?thesis .
qed

lemma distinct_straight_keys: "distinct straight_keys"
  unfolding straight_keys_eq by (simp only: numeral_list_rules)

lemma distinct_trips_keys: "distinct trips_keys"
  unfolding trips_keys_eq by (simp only: numeral_list_rules)

lemma trips_fresh: "set trips_keys \<inter> set straight_keys = {}"
  unfolding trips_keys_eq straight_keys_eq
  by (rule disjoint_by_list_all) (simp only: numeral_list_rules)

lemma high_not_trips: "set high_keys \<inter> set trips_keys = {}"
  unfolding high_keys_eq trips_keys_eq
  by (rule disjoint_by_list_all) (simp only: numeral_list_rules)

lemma pairs_fresh_1: "set pair_keys \<inter> set straight_keys = {}"
  unfolding pair_keys_eq straight_keys_eq
  by (rule disjoint_by_list_all) (simp only: numeral_list_rules)

lemma pairs_fresh_2: "set pair_keys \<inter> set trips_keys = {}"
  unfolding pair_keys_eq trips_keys_eq
  by (rule disjoint_by_list_all) (simp only: numeral_list_rules)

lemma pairs_fresh_3: "set pair_keys \<inter> set high_card_keys = {}"
  unfolding pair_keys_eq high_card_keys_eq
  by (rule disjoint_by_list_all) (simp only: numeral_list_rules)

lemma key_lengths:
  "length straight_keys = 12" "length trips_keys = 13" "length high_card_keys = 274"
  "length pair_keys = 156"
  unfolding straight_keys_eq trips_keys_eq high_card_keys_eq pair_keys_eq by simp_all

lemma tc_lookup_parts:
  "tc_lookup = number_from 431 straight_keys @ number_from 13 trips_keys
       @ number_from 873 high_card_keys @ number_from 717 pair_keys"
proof -
  let ?d1 = "number_from 431 straight_keys"
  let ?d2 = "?d1 @ number_from 13 trips_keys"
  let ?d3 = "?d2 @ number_from 873 high_card_keys"
  let ?d4 = "?d3 @ number_from 717 pair_keys"
  have "fold (ins FLUSH_OFFSET) straight_keys ([], MIN_STRAIGHT_FLUSH)
      = ([] @ number_from (MIN_STRAIGHT_FLUSH + FLUSH_OFFSET) straight_keys,
         MIN_STRAIGHT_FLUSH + int (length straight_keys))"
    by (rule fold_ins) (simp_all add: distinct_straight_keys)
  then have s1: "fold straights_step (xrange_down 13 1) ([], MIN_STRAIGHT_FLUSH) = (?d1, 13)"
    unfolding fold_straights by (simp add: key_lengths MIN_STRAIGHT_FLUSH_def FLUSH_OFFSET_def)
  have "fold (ins 0) trips_keys (?d1, 13) = (?d1 @ number_from (13 + 0) trips_keys,
         13 + int (length trips_keys))"
    using trips_fresh by (intro fold_ins) (simp_all add: distinct_trips_keys)
  then have s2: "fold trips_step (xrange_down 13 0) (?d1, 13) = (?d2, 26)"
    unfolding fold_trips by (simp add: key_lengths)
  have flt: "filter (\<lambda>k. \<not> dict_has ?d2 k) high_keys = high_card_keys"
    unfolding high_card_keys_def using high_not_trips
    by (intro filter_cong) (auto simp: dict_has_iff image_Un)
  have "fold ins_new high_keys (?d2, MIN_HIGH_CARD)
      = (?d2 @ number_from MIN_HIGH_CARD (filter (\<lambda>k. \<not> dict_has ?d2 k) high_keys),
         MIN_HIGH_CARD + int (length (filter (\<lambda>k. \<not> dict_has ?d2 k) high_keys)))"
    by (rule fold_ins_new) (rule distinct_high_keys)
  then have s3: "fold ins_new high_keys (?d2, MIN_HIGH_CARD) = (?d3, 1147)"
    unfolding flt by (simp add: key_lengths MIN_HIGH_CARD_def)
  have "fold (ins 0) pair_keys (?d3, MIN_PAIR)
      = (?d3 @ number_from (MIN_PAIR + 0) pair_keys, MIN_PAIR + int (length pair_keys))"
    using pairs_fresh_1 pairs_fresh_2 pairs_fresh_3
    by (intro fold_ins) (simp_all add: distinct_pair_keys image_Un Int_Un_distrib)
  then have s4: "fold (ins 0) pair_keys (?d3, MIN_PAIR) = (?d4, 873)"
    by (simp add: key_lengths MIN_PAIR_def)
  have "ThreeCardLookup_init [] = ?d4"
    unfolding ThreeCardLookup_init_def fold_high fold_pairs
    by (simp only: s1 s2 s3 s4 Let_def prod.case)
  then show ?thesis
    by (simp add: tc_lookup_def)
qed


lemma tc_lookup_eq: "tc_lookup = rank_table"
  unfolding tc_lookup_parts rank_table_def straight_keys_eq trips_keys_eq high_card_keys_eq
    pair_keys_eq
  by simp

subsection \<open>Every rank combination has exactly one key\<close>

lemma keys_tc_lookup:
  "map fst tc_lookup = straight_keys @ trips_keys @ high_card_keys @ pair_keys"
  by (simp add: tc_lookup_parts)

lemma set_xrange_down: "set (xrange_down a b) = {b<..a}"
  by (auto simp: xrange_down_def)

lemma in_rank_combinations:
  "(c1, c2, c3) \<in> set rank_combinations \<longleftrightarrow> 1 \<le> c3 \<and> c3 \<le> c2 \<and> c2 \<le> c1 \<and> c1 \<le> 13"
  by (force simp add: rank_combinations_def simp del: upt_Suc)

lemma set_rank_combinations:
  "set rank_combinations = {(c1, c2, c3). 1 \<le> c3 \<and> c3 \<le> c2 \<and> c2 \<le> c1 \<and> c1 \<le> 13}"
  using in_rank_combinations by auto

lemma length_rank_combinations: "length rank_combinations = 455"
  by code_simp

lemma in_concat_Pair:
  "(x, y) \<in> set (concat (map (\<lambda>x. map (Pair x) (g x)) xs)) \<longleftrightarrow> x \<in> set xs \<and> y \<in> set (g x)"
  by auto

lemma in_high_triples:
  "(c1, c2, c3) \<in> set high_triples \<longleftrightarrow> 1 \<le> c3 \<and> c3 < c2 \<and> c2 < c1 \<and> c1 \<le> 13"
  unfolding high_triples_def in_concat_Pair set_xrange_down by auto

lemma set_high_triples:
  "set high_triples = {(c1, c2, c3). 1 \<le> c3 \<and> c3 < c2 \<and> c2 < c1 \<and> c1 \<le> 13}"
  using in_high_triples by auto

lemma set_straight_keys:
  "set straight_keys = (\<lambda>i. PRIMES ! i * PRIMES ! (i - 1) * PRIMES ! (i - 2)) ` {1<..13}"
  by (simp add: straight_keys_def set_xrange_down)

lemma set_trips_keys: "set trips_keys = (\<lambda>i. (PRIMES ! i) ^ 3) ` {0<..13}"
  by (simp add: trips_keys_def set_xrange_down)

lemma set_high_keys: "set high_keys = combination_key ` set high_triples"
  by (simp add: high_keys_def combination_key_def)

lemma set_pair_keys:
  "set pair_keys = {(PRIMES ! i) ^ 2 * PRIMES ! kicker | i kicker.
      i \<in> {0<..13} \<and> kicker \<in> {0<..13} \<and> kicker \<noteq> i}"
  by (auto simp: pair_keys_def set_xrange_down image_iff) blast+

lemma high_keys_split: "set high_keys \<subseteq> set straight_keys \<union> set high_card_keys"
  by (auto simp: high_card_keys_def)

lemma combination_in_table:
  assumes "t \<in> set rank_combinations"
  shows "combination_key t \<in> fst ` set tc_lookup"
proof -
  obtain c1 c2 c3 where t: "t = (c1, c2, c3)" by (cases t)
  with assms have bounds: "1 \<le> c3" "c3 \<le> c2" "c2 \<le> c1" "c1 \<le> 13"
    by (simp_all add: set_rank_combinations)
  have keys: "fst ` set tc_lookup
      = set straight_keys \<union> set trips_keys \<union> set high_card_keys \<union> set pair_keys"
    using keys_tc_lookup by (metis set_append set_map sup_assoc)
  consider (trip) "c1 = c2" "c2 = c3" | (pair_high) "c1 = c2" "c3 < c2"
    | (pair_low) "c2 < c1" "c2 = c3" | (high) "c3 < c2" "c2 < c1"
    using bounds by linarith
  then show ?thesis
  proof cases
    case trip
    then have "combination_key t = (PRIMES ! c1) ^ 3"
      by (simp add: t combination_key_def power3_eq_cube)
    moreover have "c1 \<in> {0<..13}" using bounds by simp
    ultimately have "combination_key t \<in> set trips_keys"
      unfolding set_trips_keys by blast
    then show ?thesis by (simp add: keys)
  next
    case pair_high
    then have "combination_key t = (PRIMES ! c1) ^ 2 * PRIMES ! c3"
      by (simp add: t combination_key_def power2_eq_square)
    moreover have "c1 \<in> {0<..13}" "c3 \<in> {0<..13}" "c3 \<noteq> c1" using bounds pair_high by simp_all
    ultimately have "combination_key t \<in> set pair_keys"
      unfolding set_pair_keys by blast
    then show ?thesis by (simp add: keys)
  next
    case pair_low
    then have "combination_key t = (PRIMES ! c2) ^ 2 * PRIMES ! c1"
      by (simp add: t combination_key_def power2_eq_square mult.commute)
    moreover have "c2 \<in> {0<..13}" "c1 \<in> {0<..13}" "c1 \<noteq> c2" using bounds pair_low by simp_all
    ultimately have "combination_key t \<in> set pair_keys"
      unfolding set_pair_keys by blast
    then show ?thesis by (simp add: keys)
  next
    case high
    then have "t \<in> set high_triples"
      using bounds by (simp add: t set_high_triples)
    then have "combination_key t \<in> set high_keys"
      by (simp add: set_high_keys)
    then show ?thesis using high_keys_split by (auto simp: keys)
  qed
qed

lemma PRIMES_ace: "PRIMES ! 0 = PRIMES ! 13"
  by (simp add: PRIMES_def)

lemma table_key_is_combination:
  assumes "k \<in> fst ` set tc_lookup"
  shows "k \<in> combination_key ` set rank_combinations"
proof -
  have keys: "fst ` set tc_lookup
      = set straight_keys \<union> set trips_keys \<union> set high_card_keys \<union> set pair_keys"
    using keys_tc_lookup by (metis set_append set_map sup_assoc)
  from assms consider (straight) "k \<in> set straight_keys" | (trip) "k \<in> set trips_keys"
    | (high) "k \<in> set high_card_keys" | (pair) "k \<in> set pair_keys"
    by (auto simp: keys)
  then show ?thesis
  proof cases
    case straight
    then obtain i where i: "1 < i" "i \<le> 13"
      and k: "k = PRIMES ! i * PRIMES ! (i - 1) * PRIMES ! (i - 2)"
      by (auto simp: set_straight_keys)
    show ?thesis
    proof (cases "i = 2")
      case True
      then have "k = combination_key (13, 2, 1)"
        by (simp add: k combination_key_def PRIMES_def)
      moreover have "(13, 2, 1) \<in> set rank_combinations"
        by (simp add: set_rank_combinations)
      ultimately show ?thesis by blast
    next
      case False
      with i have "3 \<le> i" by simp
      with i have "(i, i - 1, i - 2) \<in> set rank_combinations"
        unfolding in_rank_combinations by arith
      moreover have "k = combination_key (i, i - 1, i - 2)"
        by (simp add: k combination_key_def)
      ultimately show ?thesis by blast
    qed
  next
    case trip
    then obtain i where i: "0 < i" "i \<le> 13" and k: "k = (PRIMES ! i) ^ 3"
      by (auto simp: set_trips_keys)
    then have "(i, i, i) \<in> set rank_combinations" "k = combination_key (i, i, i)"
      by (simp_all add: set_rank_combinations combination_key_def power3_eq_cube)
    then show ?thesis by blast
  next
    case high
    then have "k \<in> combination_key ` set high_triples"
      by (simp add: high_card_keys_def set_high_keys)
    moreover have "set high_triples \<subseteq> set rank_combinations"
      by (auto simp: set_high_triples set_rank_combinations)
    ultimately show ?thesis by blast
  next
    case pair
    then obtain i kicker where ik: "0 < i" "i \<le> 13" "0 < kicker" "kicker \<le> 13" "kicker \<noteq> i"
      and k: "k = (PRIMES ! i) ^ 2 * PRIMES ! kicker"
      by (auto simp: set_pair_keys)
    show ?thesis
    proof (cases "kicker < i")
      case True
      with ik have "(i, i, kicker) \<in> set rank_combinations" "k = combination_key (i, i, kicker)"
        by (simp_all add: set_rank_combinations combination_key_def power2_eq_square k)
      then show ?thesis by blast
    next
      case False
      with ik have "(kicker, i, i) \<in> set rank_combinations" "k = combination_key (kicker, i, i)"
        by (simp_all add: set_rank_combinations combination_key_def power2_eq_square k mult.commute)
      then show ?thesis by blast
    qed
  qed
qed

lemma distinct_high_card_keys: "distinct high_card_keys"
  by (simp add: high_card_keys_def distinct_high_keys)

lemma distinct_keys_tc_lookup: "distinct (map fst tc_lookup)"
proof -
  have "set high_card_keys \<inter> set straight_keys = {}"
    by (auto simp: high_card_keys_def)
  moreover have "set high_card_keys \<inter> set trips_keys = {}"
    using high_not_trips by (auto simp: high_card_keys_def)
  ultimately show ?thesis
    unfolding keys_tc_lookup
    using distinct_straight_keys distinct_trips_keys distinct_high_card_keys distinct_pair_keys
      trips_fresh pairs_fresh_1 pairs_fresh_2 pairs_fresh_3
    by auto
qed

lemma length_tc_lookup: "length tc_lookup = 455"
  by (simp add: tc_lookup_parts key_lengths)

lemma keys_are_combinations:
  "fst ` set tc_lookup = combination_key ` set rank_combinations"
  using combination_in_table table_key_is_combination by blast

lemma combination_key_inj: "inj_on combination_key (set rank_combinations)"
proof (rule eq_card_imp_inj_on)
  show "finite (set rank_combinations)" by simp
  have "card (fst ` set tc_lookup) = 455"
    using distinct_card [OF distinct_keys_tc_lookup] length_tc_lookup by simp
  then have image: "card (combination_key ` set rank_combinations) = 455"
    by (simp add: keys_are_combinations)
  have "card (set rank_combinations) \<le> 455"
    using card_length [of rank_combinations] by (simp add: length_rank_combinations)
  moreover have "card (combination_key ` set rank_combinations) \<le> card (set rank_combinations)"
    by (rule card_image_le) simp
  ultimately show "card (combination_key ` set rank_combinations) = card (set rank_combinations)"
    using image by simp
qed

text \<open>
  C2, as the code has it: the table has 455 entries, one for each 3-rank combination (no
  repeat, one pair or a trip): every combination's key is a key of the table, every key of the
  table is the key of a combination, and no two combinations share a key. (The 741 of the
  claim counts the values of hands, suited and unsuited, not the entries.)
\<close>

theorem lookup_table_entries:
  "length tc_lookup = 455
   \<and> distinct (map fst tc_lookup)
   \<and> fst ` set tc_lookup = combination_key ` set rank_combinations
   \<and> inj_on combination_key (set rank_combinations)
   \<and> length rank_combinations = 455"
  using length_tc_lookup distinct_keys_tc_lookup keys_are_combinations combination_key_inj
    length_rank_combinations
  by simp

theorem lookup_table_not_741: "length tc_lookup \<noteq> 741 \<and> card (fst ` set tc_lookup) \<noteq> 741"
  using distinct_card [OF distinct_keys_tc_lookup] length_tc_lookup by simp

section \<open>Evaluating hands\<close>

subsection \<open>Cards\<close>

lemma PRIMES_Suc: "PRIMES ! Suc r = CARD_PRIMES ! r"
  by (simp add: PRIMES_def CARD_PRIMES_def)

lemma rank_cases:
  "r < 13 \<Longrightarrow> r = 0 \<or> r = 1 \<or> r = 2 \<or> r = 3 \<or> r = 4 \<or> r = 5 \<or> r = 6 \<or> r = 7 \<or> r = 8
     \<or> r = 9 \<or> r = 10 \<or> r = 11 \<or> r = (12::nat)"
  by arith

lemma card_prime_field: "r < 13 \<Longrightarrow> Card_new r s AND 0xFF = CARD_PRIMES ! r"
  by (drule rank_cases, cases s) (auto simp: Card_new_def CARD_PRIMES_def)

lemma card_suit_field: "r < 13 \<Longrightarrow> 0xF000 AND Card_new r s = push_bit 12 (suit_int s)"
  by (drule rank_cases, cases s) (auto simp: Card_new_def CARD_PRIMES_def)

lemma card_rank_field: "r < 13 \<Longrightarrow> get_rank_int (Card_new r s) = int r"
  by (drule rank_cases, cases s) (auto simp: Card_new_def CARD_PRIMES_def get_rank_int_def)

lemma suit_bits_meet:
  "push_bit 12 (suit_int s1) AND push_bit 12 (suit_int s2) AND push_bit 12 (suit_int s3) \<noteq> 0
     \<longleftrightarrow> s1 = s2 \<and> s2 = s3"
  by (cases s1; cases s2; cases s3) simp_all

lemma suit_mask_spread:
  "((0xF000 AND c1) AND c2) AND c3 = (0xF000 AND c1) AND (0xF000 AND c2) AND (0xF000 AND (c3 :: int))"
  by (simp add: and.assoc and.left_commute)


subsection \<open>The scalar evaluator\<close>

lemma evaluate_hand_three:
  "evaluate_hand [c1, c2, c3] =
     (case dict_get tc_lookup ((c1 AND 0xFF) * (c2 AND 0xFF) * (c3 AND 0xFF)) of
        Inl e \<Rightarrow> Inl e
      | Inr rank \<Rightarrow> Inr (rank - (if ((0xF000 AND c1) AND c2) AND c3 \<noteq> 0 then 1 else 0) * FLUSH_OFFSET))"
  by (simp add: evaluate_hand_def)

lemma dict_get_present:
  "k \<in> fst ` set d \<Longrightarrow> \<exists>u. dict_get d k = Inr u"
  by (cases "map_of d k") (auto simp: dict_get_def map_of_eq_None_iff)

lemma sorted_combination:
  assumes "c1 \<in> {0<..13}" "c2 \<in> {0<..13}" "c3 \<in> {0<..13}"
  shows "\<exists>t \<in> set rank_combinations. combination_key t = PRIMES ! c1 * PRIMES ! c2 * PRIMES ! c3"
proof -
  consider "c3 \<le> c2" "c2 \<le> c1" | "c2 \<le> c3" "c3 \<le> c1" | "c3 \<le> c1" "c1 \<le> c2"
    | "c1 \<le> c3" "c3 \<le> c2" | "c2 \<le> c1" "c1 \<le> c3" | "c1 \<le> c2" "c2 \<le> c3"
    by linarith
  then show ?thesis
  proof cases
    case 1
    with assms have "(c1, c2, c3) \<in> set rank_combinations" by (simp add: in_rank_combinations)
    then show ?thesis by (force simp: combination_key_def)
  next
    case 2
    with assms have "(c1, c3, c2) \<in> set rank_combinations" by (simp add: in_rank_combinations)
    then show ?thesis by (force simp: combination_key_def mult_ac)
  next
    case 3
    with assms have "(c2, c1, c3) \<in> set rank_combinations" by (simp add: in_rank_combinations)
    then show ?thesis by (force simp: combination_key_def mult_ac)
  next
    case 4
    with assms have "(c2, c3, c1) \<in> set rank_combinations" by (simp add: in_rank_combinations)
    then show ?thesis by (force simp: combination_key_def mult_ac)
  next
    case 5
    with assms have "(c3, c1, c2) \<in> set rank_combinations" by (simp add: in_rank_combinations)
    then show ?thesis by (force simp: combination_key_def mult_ac)
  next
    case 6
    with assms have "(c3, c2, c1) \<in> set rank_combinations" by (simp add: in_rank_combinations)
    then show ?thesis by (force simp: combination_key_def mult_ac)
  qed
qed

lemma card_primes_in_table:
  assumes "r1 < 13" "r2 < 13" "r3 < 13"
  shows "CARD_PRIMES ! r1 * CARD_PRIMES ! r2 * CARD_PRIMES ! r3 \<in> fst ` set tc_lookup"
proof -
  from assms have "Suc r1 \<in> {0<..13}" "Suc r2 \<in> {0<..13}" "Suc r3 \<in> {0<..13}" by simp_all
  from sorted_combination [OF this] obtain t where "t \<in> set rank_combinations"
    and "combination_key t = CARD_PRIMES ! r1 * CARD_PRIMES ! r2 * CARD_PRIMES ! r3"
    by (auto simp: PRIMES_Suc)
  then show ?thesis using combination_in_table by metis
qed

lemma evaluate_hand_cards:
  assumes "r1 < 13" "r2 < 13" "r3 < 13"
  shows "evaluate_hand [Card_new r1 s1, Card_new r2 s2, Card_new r3 s3] =
     (case dict_get tc_lookup (CARD_PRIMES ! r1 * CARD_PRIMES ! r2 * CARD_PRIMES ! r3) of
        Inl e \<Rightarrow> Inl e
      | Inr u \<Rightarrow> Inr (if s1 = s2 \<and> s2 = s3 then u - FLUSH_OFFSET else u))"
proof -
  have "((0xF000 AND Card_new r1 s1) AND Card_new r2 s2) AND Card_new r3 s3
      = push_bit 12 (suit_int s1) AND push_bit 12 (suit_int s2) AND push_bit 12 (suit_int s3)"
    unfolding suit_mask_spread [of "Card_new r1 s1"] using assms by (simp only: card_suit_field)
  then have suited: "((0xF000 AND Card_new r1 s1) AND Card_new r2 s2) AND Card_new r3 s3 \<noteq> 0
      \<longleftrightarrow> s1 = s2 \<and> s2 = s3"
    by (simp only: suit_bits_meet)
  show ?thesis
    unfolding evaluate_hand_three suited using assms
    by (auto simp add: card_prime_field split: sum.splits)
qed

text \<open>
  C7: a hand of three valid cards is valued at the table's entry for the product of its rank
  primes when the cards do not share a suit and at 430 less when they do; so the value
  depends on the suits only through whether they are all the same.
\<close>

theorem flush_offset_relation:
  assumes "r1 < 13" and "r2 < 13" and "r3 < 13"
  shows "\<exists>u. dict_get tc_lookup (CARD_PRIMES ! r1 * CARD_PRIMES ! r2 * CARD_PRIMES ! r3) = Inr u
      \<and> evaluate_hand [Card_new r1 s1, Card_new r2 s2, Card_new r3 s3]
          = Inr (if s1 = s2 \<and> s2 = s3 then u - 430 else u)
      \<and> (\<forall>t1 t2 t3. evaluate_hand [Card_new r1 t1, Card_new r2 t2, Card_new r3 t3]
          = Inr (if t1 = t2 \<and> t2 = t3 then u - 430 else u))
      \<and> FLUSH_OFFSET = 430"
proof -
  from dict_get_present [OF card_primes_in_table [OF assms]]
  obtain u where u: "dict_get tc_lookup (CARD_PRIMES ! r1 * CARD_PRIMES ! r2 * CARD_PRIMES ! r3) = Inr u"
    by blast
  have "evaluate_hand [Card_new r1 t1, Card_new r2 t2, Card_new r3 t3]
          = Inr (if t1 = t2 \<and> t2 = t3 then u - 430 else u)" for t1 t2 t3
    by (simp add: evaluate_hand_cards [OF assms] u FLUSH_OFFSET_def)
  with u show ?thesis by (simp add: FLUSH_OFFSET_def)
qed

subsection \<open>The reference hands of the house way\<close>

lemmas table_lookup_rules =
  map_of_Cons_code numeral_eq_iff num.simps if_True if_False simp_thms

lemma table_at_410: "map_of rank_table 410 = Some 936"
  unfolding rank_table_def by (simp only: table_lookup_rules)

lemma table_at_222: "map_of rank_table 222 = Some 990"
  unfolding rank_table_def by (simp only: table_lookup_rules)

lemma table_at_186: "map_of rank_table 186 = Some 1034"
  unfolding rank_table_def by (simp only: table_lookup_rules)

lemma ACE_HIGH_eq: "ACE_HIGH = Inr 936"
  by (simp add: ACE_HIGH_def evaluate_hand_cards CARD_PRIMES_def dict_get_def tc_lookup_eq
      table_at_410)

lemma KING_HIGH_eq: "KING_HIGH = Inr 990"
  by (simp add: KING_HIGH_def evaluate_hand_cards CARD_PRIMES_def dict_get_def tc_lookup_eq
      table_at_222)

lemma QUEEN_HIGH_eq: "QUEEN_HIGH = Inr 1034"
  by (simp add: QUEEN_HIGH_def evaluate_hand_cards CARD_PRIMES_def dict_get_def tc_lookup_eq
      table_at_186)

lemma ACE_eq: "ACE = 12"
  by (simp add: ACE_def card_rank_field)

lemma KING_eq: "KING = 11"
  by (simp add: KING_def card_rank_field)

lemma QUEEN_eq: "QUEEN = 10"
  by (simp add: QUEEN_def card_rank_field)

theorem flush_offset_relation_witness:
  "(12::nat) < 13 \<and> (0::nat) < 13 \<and> (2::nat) < 13
   \<and> dict_get tc_lookup (CARD_PRIMES ! 12 * CARD_PRIMES ! 0 * CARD_PRIMES ! 2) = Inr 936
   \<and> evaluate_hand [Card_new 12 Clubs, Card_new 0 Diamonds, Card_new 2 Diamonds] = Inr 936
   \<and> evaluate_hand [Card_new 12 Spades, Card_new 0 Hearts, Card_new 2 Hearts] = Inr 936
   \<and> evaluate_hand [Card_new 12 Spades, Card_new 0 Spades, Card_new 2 Spades] = Inr 506"
proof -
  have key: "dict_get tc_lookup (CARD_PRIMES ! 12 * CARD_PRIMES ! 0 * CARD_PRIMES ! 2) = Inr 936"
    by (simp add: CARD_PRIMES_def dict_get_def tc_lookup_eq table_at_410)
  from flush_offset_relation [of 12 0 2 Clubs Diamonds Diamonds] show ?thesis
    by (auto simp add: key)
qed

subsection \<open>The vectorised evaluator\<close>

lemma fold_hand_prime:
  "fst (fold (\<lambda>card (prime, suit). (prime * (card AND 0xFF), suit AND card)) hand (p, s))
     = fold (\<lambda>x acc. acc * x) (map (\<lambda>card. card AND 0xFF) hand) p"
  by (induction hand arbitrary: p s) simp_all

lemma fold_hand_suit:
  "snd (fold (\<lambda>card (prime, suit). (prime * (card AND 0xFF), suit AND card)) hand (p, s))
     = s AND and_all hand"
  by (induction hand arbitrary: p s) (simp_all add: and.assoc)

lemma not_or_reduce:
  "NOT (fold (\<lambda>x acc. acc OR x) (map NOT hand) a) = NOT a AND and_all hand"
  by (induction hand arbitrary: a) (simp_all add: and.assoc)

lemma flush_test_agrees:
  "(NOT (bitwise_or_reduce (map NOT hand))) AND 0xF000
     = snd (fold (\<lambda>card (prime, suit). (prime * (card AND 0xFF), suit AND card)) hand (1, 0xF000))"
  unfolding fold_hand_suit bitwise_or_reduce_def not_or_reduce
  by (simp add: and.commute)

lemma evaluate_hand_pipeline:
  "evaluate_hand hand =
     (case dict_get tc_lookup (multiply_reduce (map (\<lambda>card. card AND 0xFF) hand)) of
        Inl e \<Rightarrow> Inl e
      | Inr rank \<Rightarrow> Inr (rank - (if (NOT (bitwise_or_reduce (map NOT hand))) AND 0xF000 \<noteq> 0
                                 then FLUSH_OFFSET else 0)))"
proof -
  obtain prime suit where f:
    "fold (\<lambda>card (prime, suit). (prime * (card AND 0xFF), suit AND card)) hand (1, 0xF000)
       = (prime, suit)"
    by (cases "fold (\<lambda>card (prime, suit). (prime * (card AND 0xFF), suit AND card)) hand (1, 0xF000)")
  have "prime = multiply_reduce (map (\<lambda>card. card AND 0xFF) hand)"
    using fold_hand_prime [of hand 1 "0xF000"] by (simp add: f multiply_reduce_def)
  moreover have "suit = (NOT (bitwise_or_reduce (map NOT hand))) AND 0xF000"
    by (simp add: flush_test_agrees f)
  ultimately show ?thesis
    by (auto simp add: evaluate_hand_def f split: sum.splits)
qed

lemma evaluate_hands_Nil: "evaluate_hands [] = Inl ValueError"
  by (simp add: evaluate_hands_def)

lemma evaluate_hands_single:
  "evaluate_hands [hand] = (case evaluate_hand hand of Inl e \<Rightarrow> Inl e | Inr v \<Rightarrow> Inr [v])"
  by (simp add: evaluate_hands_def evaluate_hand_pipeline split: sum.splits)

lemma evaluate_hands_Cons:
  "hands \<noteq> [] \<Longrightarrow>
   evaluate_hands (hand # hands) =
     (case evaluate_hand hand of
        Inl e \<Rightarrow> Inl e
      | Inr v \<Rightarrow> (case evaluate_hands hands of Inl e \<Rightarrow> Inl e | Inr vs \<Rightarrow> Inr (v # vs)))"
  by (simp add: evaluate_hands_def evaluate_hand_pipeline split: sum.splits)

lemma evaluate_hands_pointwise_nonempty:
  "hands \<noteq> [] \<Longrightarrow> evaluate_hands hands = Inr vs \<Longrightarrow>
     length vs = length hands \<and> (\<forall>i < length hands. evaluate_hand (hands ! i) = Inr (vs ! i))"
proof (induction hands arbitrary: vs rule: list_nonempty_induct)
  case (single hand)
  then show ?case
    by (auto simp: evaluate_hands_single split: sum.splits)
next
  case (cons hand hands)
  from cons.prems cons.hyps obtain v ws where v: "evaluate_hand hand = Inr v"
    and ws: "evaluate_hands hands = Inr ws" and vs: "vs = v # ws"
    by (auto simp: evaluate_hands_Cons split: sum.splits)
  from cons.IH [OF ws] v show ?case
    by (auto simp: vs nth_Cons split: nat.splits)
qed

lemma evaluate_hands_pointwise:
  "evaluate_hands hands = Inr vs \<Longrightarrow>
     length vs = length hands \<and> (\<forall>i < length hands. evaluate_hand (hands ! i) = Inr (vs ! i))"
  by (cases "hands = []") (simp_all add: evaluate_hands_Nil evaluate_hands_pointwise_nonempty)

lemma evaluate_hands_succeeds:
  "hands \<noteq> [] \<Longrightarrow> list_all (\<lambda>hand. \<exists>v. evaluate_hand hand = Inr v) hands
     \<Longrightarrow> \<exists>vs. evaluate_hands hands = Inr vs"
  by (induction hands rule: list_nonempty_induct)
    (auto simp: evaluate_hands_single evaluate_hands_Cons)

lemma deck_card: "c \<in> set FULL_DECK \<Longrightarrow> \<exists>r s. r < 13 \<and> c = Card_new r s"
  by (auto simp: FULL_DECK_def)

lemma valid_hand_evaluates:
  assumes "valid_hand hand"
  shows "\<exists>v. evaluate_hand hand = Inr v"
proof -
  from assms have "length hand = 3" by (simp add: valid_hand_def)
  then obtain c1 c2 c3 where hand: "hand = [c1, c2, c3]"
    by (auto simp: length_Suc_conv numeral_3_eq_3)
  with assms have deck: "c1 \<in> set FULL_DECK" "c2 \<in> set FULL_DECK" "c3 \<in> set FULL_DECK"
    by (simp_all add: valid_hand_def)
  from deck obtain r1 s1 r2 s2 r3 s3 where
    "r1 < 13" "c1 = Card_new r1 s1" "r2 < 13" "c2 = Card_new r2 s2" "r3 < 13" "c3 = Card_new r3 s3"
    by (meson deck_card)
  then show ?thesis
    using dict_get_present [OF card_primes_in_table, of r1 r2 r3]
    by (auto simp add: hand evaluate_hand_cards)
qed

text \<open>
  C9: on a batch of valid hands that holds at least one hand, the vectorised evaluator
  returns, at each index, the value the scalar evaluator returns for the hand at that index.
  The empty batch has no index, and \<^verbatim>\<open>evaluate_hands\<close> raises on it.
\<close>

theorem evaluate_hands_refines_evaluate_hand:
  assumes "hands \<noteq> []" and "list_all valid_hand hands"
  shows "\<exists>vs. evaluate_hands hands = Inr vs \<and> length vs = length hands
      \<and> (\<forall>i < length hands. evaluate_hand (hands ! i) = Inr (vs ! i))"
proof -
  from assms(2) have "list_all (\<lambda>hand. \<exists>v. evaluate_hand hand = Inr v) hands"
    by (auto simp: list_all_iff valid_hand_evaluates)
  then obtain vs where "evaluate_hands hands = Inr vs"
    using evaluate_hands_succeeds [OF assms(1)] by blast
  with evaluate_hands_pointwise [OF this] show ?thesis by blast
qed

lemma deck_member: "r < 13 \<Longrightarrow> Card_new r s \<in> set FULL_DECK"
  by (cases s) (auto simp: FULL_DECK_def)

lemma table_at_3034: "map_of rank_table 3034 = Some 882"
  unfolding rank_table_def by (simp only: table_lookup_rules)

lemma table_at_273: "map_of rank_table 273 = Some 1135"
  unfolding rank_table_def by (simp only: table_lookup_rules)

lemma example_values: "evaluate_hands example_hands = Inr [882, 882, 1135]"
  by (simp add: example_hands_def evaluate_hands_Cons evaluate_hands_single evaluate_hand_cards
      CARD_PRIMES_def dict_get_def tc_lookup_eq table_at_3034 table_at_273)

theorem evaluate_hands_refines_evaluate_hand_witness:
  "example_hands \<noteq> []
   \<and> list_all valid_hand example_hands
   \<and> evaluate_hands example_hands = Inr [882, 882, 1135]
   \<and> evaluate_hand (example_hands ! 0) = Inr 882
   \<and> evaluate_hand (example_hands ! 1) = Inr 882
   \<and> evaluate_hand (example_hands ! 2) = Inr 1135"
proof -
  have valid: "list_all valid_hand example_hands"
    by (simp add: example_hands_def valid_hand_def deck_member)
  have len: "length example_hands = 3"
    by (simp add: example_hands_def)
  have nonempty: "example_hands \<noteq> []"
    by (simp add: example_hands_def)
  from evaluate_hands_refines_evaluate_hand [OF nonempty valid] obtain vs
    where run: "evaluate_hands example_hands = Inr vs"
      and each: "\<forall>i < length example_hands. evaluate_hand (example_hands ! i) = Inr (vs ! i)"
    by blast
  from run have vs: "vs = [882, 882, 1135]"
    by (simp add: example_values)
  from each have "evaluate_hand (example_hands ! 0) = Inr (vs ! 0)"
    and "evaluate_hand (example_hands ! 1) = Inr (vs ! 1)"
    and "evaluate_hand (example_hands ! 2) = Inr (vs ! 2)"
    by (simp_all add: len)
  with nonempty valid run show ?thesis
    by (simp add: vs)
qed

subsection \<open>The range of the values\<close>

lemma number_from_values:
  "(k, v) \<in> set (number_from r ks) \<Longrightarrow> k \<in> set ks \<and> r \<le> v \<and> v < r + int (length ks)"
  by (induction ks arbitrary: r) fastforce+

lemma table_entry_cases:
  assumes "map_of tc_lookup k = Some u"
  obtains (straight) "k \<in> set straight_keys" "431 \<le> u" "u \<le> 442"
    | (trips) "k \<in> set trips_keys" "13 \<le> u" "u \<le> 25"
    | (high) "k \<in> set high_card_keys" "873 \<le> u" "u \<le> 1146"
    | (pair) "k \<in> set pair_keys" "717 \<le> u" "u \<le> 872"
proof -
  from assms have "(k, u) \<in> set tc_lookup" by (rule map_of_SomeD)
  then consider "(k, u) \<in> set (number_from 431 straight_keys)"
    | "(k, u) \<in> set (number_from 13 trips_keys)"
    | "(k, u) \<in> set (number_from 873 high_card_keys)"
    | "(k, u) \<in> set (number_from 717 pair_keys)"
    by (auto simp: tc_lookup_parts)
  then show ?thesis
  proof cases
    case 1
    from number_from_values [OF 1] show ?thesis by (intro straight) (simp_all add: key_lengths)
  next
    case 2
    from number_from_values [OF 2] show ?thesis by (intro trips) (simp_all add: key_lengths)
  next
    case 3
    from number_from_values [OF 3] show ?thesis by (intro high) (simp_all add: key_lengths)
  next
    case 4
    from number_from_values [OF 4] show ?thesis by (intro pair) (simp_all add: key_lengths)
  qed
qed

lemma table_value_bounds: "map_of tc_lookup k = Some u \<Longrightarrow> 13 \<le> u \<and> u \<le> 1146"
  by (erule table_entry_cases) simp_all

lemma distinct_ranks_value:
  assumes "k \<in> set high_keys" and "map_of tc_lookup k = Some u"
  shows "431 \<le> u"
proof -
  from assms(1) have k: "k \<in> set straight_keys \<or> k \<in> set high_card_keys"
    using high_keys_split by auto
  from assms(2) show ?thesis
  proof (cases rule: table_entry_cases)
    case trips
    with assms(1) high_not_trips show ?thesis by auto
  next
    case pair
    with k pairs_fresh_1 pairs_fresh_3 show ?thesis by auto
  qed simp_all
qed

lemma distinct_ranks_key:
  assumes "c1 \<in> {0<..13}" "c2 \<in> {0<..13}" "c3 \<in> {0<..13}"
    and "c1 \<noteq> c2" "c2 \<noteq> c3" "c1 \<noteq> c3"
  shows "PRIMES ! c1 * PRIMES ! c2 * PRIMES ! c3 \<in> set high_keys"
proof -
  consider "c3 < c2" "c2 < c1" | "c2 < c3" "c3 < c1" | "c3 < c1" "c1 < c2"
    | "c1 < c3" "c3 < c2" | "c2 < c1" "c1 < c3" | "c1 < c2" "c2 < c3"
    using assms(4-6) by linarith
  then obtain t where "t \<in> set high_triples"
    and "combination_key t = PRIMES ! c1 * PRIMES ! c2 * PRIMES ! c3"
  proof cases
    case 1
    with assms have "(c1, c2, c3) \<in> set high_triples" by (simp add: in_high_triples)
    then show ?thesis by (rule that) (simp add: combination_key_def)
  next
    case 2
    with assms have "(c1, c3, c2) \<in> set high_triples" by (simp add: in_high_triples)
    then show ?thesis by (rule that) (simp add: combination_key_def mult_ac)
  next
    case 3
    with assms have "(c2, c1, c3) \<in> set high_triples" by (simp add: in_high_triples)
    then show ?thesis by (rule that) (simp add: combination_key_def mult_ac)
  next
    case 4
    with assms have "(c2, c3, c1) \<in> set high_triples" by (simp add: in_high_triples)
    then show ?thesis by (rule that) (simp add: combination_key_def mult_ac)
  next
    case 5
    with assms have "(c3, c1, c2) \<in> set high_triples" by (simp add: in_high_triples)
    then show ?thesis by (rule that) (simp add: combination_key_def mult_ac)
  next
    case 6
    with assms have "(c3, c2, c1) \<in> set high_triples" by (simp add: in_high_triples)
    then show ?thesis by (rule that) (simp add: combination_key_def mult_ac)
  qed
  then show ?thesis by (metis image_eqI set_high_keys)
qed

lemma evaluate_hand_range:
  assumes "valid_hand hand" and "distinct hand"
  shows "\<exists>v. evaluate_hand hand = Inr v \<and> 1 \<le> v \<and> v \<le> 1146"
proof -
  from assms(1) have "length hand = 3" by (simp add: valid_hand_def)
  then obtain c1 c2 c3 where hand: "hand = [c1, c2, c3]"
    by (auto simp: length_Suc_conv numeral_3_eq_3)
  with assms(1) have "c1 \<in> set FULL_DECK" "c2 \<in> set FULL_DECK" "c3 \<in> set FULL_DECK"
    by (simp_all add: valid_hand_def)
  then obtain r1 s1 r2 s2 r3 s3 where r: "r1 < 13" "r2 < 13" "r3 < 13"
    and c: "c1 = Card_new r1 s1" "c2 = Card_new r2 s2" "c3 = Card_new r3 s3"
    by (meson deck_card)
  let ?k = "CARD_PRIMES ! r1 * CARD_PRIMES ! r2 * CARD_PRIMES ! r3"
  from dict_get_present [OF card_primes_in_table [OF r]]
  obtain u where get: "dict_get tc_lookup ?k = Inr u" by blast
  then have u: "map_of tc_lookup ?k = Some u"
    by (simp add: dict_get_def split: option.splits)
  have bounds: "13 \<le> u" "u \<le> 1146" using table_value_bounds [OF u] by simp_all
  have val: "evaluate_hand hand = Inr (if s1 = s2 \<and> s2 = s3 then u - 430 else u)"
    by (simp add: hand c evaluate_hand_cards [OF r] get FLUSH_OFFSET_def)
  show ?thesis
  proof (cases "s1 = s2 \<and> s2 = s3")
    case False
    with val bounds show ?thesis by simp
  next
    case True
    with assms(2) have "r1 \<noteq> r2" "r2 \<noteq> r3" "r1 \<noteq> r3" by (auto simp: hand c)
    with r have "PRIMES ! Suc r1 * PRIMES ! Suc r2 * PRIMES ! Suc r3 \<in> set high_keys"
      by (intro distinct_ranks_key) simp_all
    then have "431 \<le> u" using u by (intro distinct_ranks_value [of ?k]) (simp_all add: PRIMES_Suc)
    with val bounds True show ?thesis by simp
  qed
qed

section \<open>Settlement against the bank\<close>















lemma length_concat_uniform:
  "list_all (\<lambda>xs. length xs = k) xss \<Longrightarrow> length (concat xss) = k * length xss"
  by (induction xss) simp_all

lemma length_adjust_round [simp]: "length (adjust_round bank_amount payouts) = length payouts"
  by (simp add: adjust_round_def)





text \<open>
  C3: the spots \<open>[+3000, -4000, +1000]\<close> settle as \<open>[+3000, -2000, 0]\<close> against a bank of
  5000 and unchanged against a bank of 10000; the same holds for the round of one player whose
  fourth spot is 0.
\<close>

theorem settlement_example:
  "adjust_round 5000 [3000, - 4000, 1000] = [3000, - 2000, 0]
   \<and> adjust_round 10000 [3000, - 4000, 1000] = [3000, - 4000, 1000]
   \<and> AdjustForAction [[[3000, - 4000, 1000, 0]]] 5000 = Inr [[[3000, - 2000, 0, 0]]]
   \<and> AdjustForAction [[[3000, - 4000, 1000, 0]]] 10000 = Inr [[[3000, - 4000, 1000, 0]]]"
  by code_simp

section \<open>Wager multipliers\<close>

subsection \<open>The cells of the multiplier array\<close>

lemma reshape_rows_nth:
  "r < length xs div k \<Longrightarrow> reshape_rows k xs ! r = take k (drop (r * k) xs)"
  by (simp add: reshape_rows_def)

lemma length_reshape_rows: "length (reshape_rows k xs) = length xs div k"
  by (simp add: reshape_rows_def)

lemma row_in_range:
  assumes "r < length xs div k"
  shows "r * k + k \<le> length xs"
proof -
  from assms have "Suc r \<le> length xs div k" by simp
  then have "Suc r * k \<le> length xs div k * k" by (rule mult_le_mono1)
  also have "\<dots> \<le> length xs" by simp
  finally show ?thesis by (simp add: add.commute)
qed

lemma row_nth:
  assumes "r < length xs div k" and "j < k"
  shows "take k (drop (r * k) xs) ! j = xs ! (r * k + j)"
  using row_in_range [OF assms(1)] assms(2) by simp

lemma row_length:
  assumes "r < length xs div k"
  shows "length (take k (drop (r * k) xs)) = k"
  using row_in_range [OF assms] by simp

lemma concat_nth_uniform:
  "list_all (\<lambda>xs. length xs = k) xss \<Longrightarrow> i < length xss \<Longrightarrow> j < k \<Longrightarrow>
     concat xss ! (i * k + j) = xss ! i ! j"
proof (induction xss arbitrary: i)
  case Nil
  then show ?case by simp
next
  case (Cons xs xss)
  show ?case
  proof (cases i)
    case 0
    with Cons.prems show ?thesis by (simp add: nth_append)
  next
    case (Suc i')
    with Cons.prems have "concat xss ! (i' * k + j) = xss ! i' ! j"
      by (intro Cons.IH) simp_all
    with Cons.prems Suc show ?thesis by (simp add: nth_append)
  qed
qed

lemma step_slice_nth:
  "j < (length xs + k - 1) div k \<Longrightarrow> step_slice k xs ! j = xs ! (j * k)"
  by (simp add: step_slice_def)

lemma step_slice_first_two:
  assumes "i + 1 < length xs"
  shows "take 2 (step_slice (i + 1) xs) = [xs ! 0, xs ! (i + 1)]"
proof -
  have "2 * (i + 1) \<le> length xs + (i + 1) - 1" using assms by simp
  then have "2 \<le> (length xs + (i + 1) - 1) div (i + 1)"
    by (metis Suc_eq_plus1 div_le_mono div_mult_self_is_m zero_less_Suc mult.commute)
  then have "take 2 [0..<(length xs + (i + 1) - 1) div (i + 1)] = [0..<0 + 2]"
    by (intro take_upt) simp
  then show ?thesis
    by (simp add: step_slice_def take_map upt_rec numeral_2_eq_2)
qed

lemma row_hd:
  assumes "r < length xs div k" and "0 < k"
  shows "hd (reshape_rows k xs ! r) = xs ! (r * k)"
proof -
  have "length (take k (drop (r * k) xs)) = k" by (rule row_length [OF assms(1)])
  with assms(2) have "take k (drop (r * k) xs) \<noteq> []" by auto
  then have "hd (take k (drop (r * k) xs)) = take k (drop (r * k) xs) ! 0"
    by (rule hd_conv_nth)
  also have "\<dots> = xs ! (r * k + 0)" by (rule row_nth [OF assms])
  finally show ?thesis by (simp add: reshape_rows_nth [OF assms(1)])
qed

lemma row_tl_nth:
  assumes "r < length xs div k" and "Suc i < k"
  shows "tl (reshape_rows k xs ! r) ! i = xs ! (r * k + Suc i)"
proof -
  have len: "length (take k (drop (r * k) xs)) = k" by (rule row_length [OF assms(1)])
  with assms(2) have "i < length (tl (take k (drop (r * k) xs)))" by (simp del: length_take)
  then have "tl (take k (drop (r * k) xs)) ! i = take k (drop (r * k) xs) ! Suc i"
    by (rule nth_tl)
  also have "\<dots> = xs ! (r * k + Suc i)" by (rule row_nth [OF assms])
  finally show ?thesis by (simp add: reshape_rows_nth [OF assms(1)])
qed

lemma face_up_nth:
  assumes "list_all (\<lambda>hand. length hand = 3) hands" and "r < length hands div k" and "0 < k"
  shows "step_slice (k * 3) (concat hands) ! r = hands ! (r * k) ! 0"
proof -
  have in_range: "r * k + k \<le> length hands" by (rule row_in_range [OF assms(2)])
  have total: "length (concat hands) = 3 * length hands"
    using assms(1) by (rule length_concat_uniform)
  have "r * (k * 3) + k * 3 \<le> length (concat hands)"
    using in_range by (simp add: total)
  moreover have "0 < k * 3" using assms(3) by simp
  ultimately have "Suc r * (k * 3) \<le> length (concat hands) + k * 3 - 1" by simp
  then have "Suc r * (k * 3) div (k * 3) \<le> (length (concat hands) + k * 3 - 1) div (k * 3)"
    by (rule div_le_mono)
  then have "r < (length (concat hands) + k * 3 - 1) div (k * 3)"
    using assms(3) by simp
  then have "step_slice (k * 3) (concat hands) ! r = concat hands ! (r * (k * 3))"
    by (rule step_slice_nth)
  also have "r * (k * 3) = (r * k) * 3 + 0" by simp
  also have "concat hands ! ((r * k) * 3 + 0) = hands ! (r * k) ! 0"
    using assms(1) in_range assms(3) by (intro concat_nth_uniform) simp_all
  finally show ?thesis .
qed

lemma six_cards_nth:
  assumes "r < length hands div k" and "i + 1 < k"
  shows "concat (take 2 (step_slice (i + 1) (reshape_rows k hands ! r)))
       = hands ! (r * k) @ hands ! (r * k + i + 1)"
proof -
  let ?row = "take k (drop (r * k) hands)"
  have len: "length ?row = k" by (rule row_length [OF assms(1)])
  have "i + 1 < length ?row" using assms(2) by (simp only: len)
  then have "take 2 (step_slice (i + 1) ?row) = [?row ! 0, ?row ! (i + 1)]"
    by (rule step_slice_first_two)
  moreover have "?row ! 0 = hands ! (r * k + 0)"
    using assms by (intro row_nth) simp_all
  moreover have "?row ! (i + 1) = hands ! (r * k + (i + 1))"
    using assms by (intro row_nth) simp_all
  ultimately show ?thesis
    by (simp add: reshape_rows_nth [OF assms(1)] add.assoc)
qed

lemma play_decisions_Inr:
  assumes "play_decisions hands hand_values num_players = Inr plays"
  shows "well_shaped hands hand_values (num_players + 1)"
    and "length plays = length hands div (num_players + 1)"
  using assms
  by (auto simp: play_decisions_def Let_def ACE_HIGH_eq KING_HIGH_eq QUEEN_HIGH_eq
      split: if_splits)

lemma play_decisions_cell:
  assumes run: "play_decisions hands hand_values num_players = Inr plays"
    and r: "r < length plays" and i: "i < num_players"
  shows "plays ! r ! i =
     play_decision 936 990 1034 (hands ! (r * (num_players + 1)) ! 0)
       (hand_values ! (r * (num_players + 1) + i + 1))"
proof -
  define all_hands where "all_hands = num_players + 1"
  have pos: "0 < all_hands" and i': "Suc i < all_hands"
    using i by (simp_all add: all_hands_def)
  have shaped: "well_shaped hands hand_values all_hands"
    and len: "length plays = length hands div all_hands"
    using play_decisions_Inr [OF run] by (simp_all add: all_hands_def)
  from shaped have lens: "length hand_values = length hands"
    and threes: "list_all (\<lambda>hand. length hand = 3) hands"
    by (simp_all add: well_shaped_def)
  from r len have rh: "r < length hands div all_hands" by simp
  with lens have rv: "r < length hand_values div all_hands" by simp
  from run shaped have "plays = map (\<lambda>r. map (\<lambda>i. play_decision 936 990 1034
         (step_slice (all_hands * 3) (concat hands) ! r)
         (map tl (reshape_rows all_hands hand_values) ! r ! i))
       [0..<num_players]) [0..<length hands div all_hands]"
    unfolding all_hands_def
    by (simp add: play_decisions_def Let_def ACE_HIGH_eq KING_HIGH_eq QUEEN_HIGH_eq)
  then have "plays ! r ! i = play_decision 936 990 1034
         (step_slice (all_hands * 3) (concat hands) ! r)
         (tl (reshape_rows all_hands hand_values ! r) ! i)"
    using rh rv i by (simp add: length_reshape_rows)
  also have "step_slice (all_hands * 3) (concat hands) ! r = hands ! (r * all_hands) ! 0"
    by (rule face_up_nth [OF threes rh pos])
  also have "tl (reshape_rows all_hands hand_values ! r) ! i
      = hand_values ! (r * all_hands + Suc i)"
    by (rule row_tl_nth [OF rv i'])
  finally show ?thesis
    unfolding all_hands_def by (simp add: add.assoc)
qed

lemma GenerateMultipliers_Inr:
  assumes "GenerateMultipliers orc hands hand_values num_players = Inr M"
  shows "\<exists>plays. play_decisions hands hand_values num_players = Inr plays"
    and "well_shaped hands hand_values (num_players + 1)"
    and "length M = length hands div (num_players + 1)"
proof -
  from assms obtain plays where plays: "play_decisions hands hand_values num_players = Inr plays"
    by (auto simp: GenerateMultipliers_def split: sum.splits)
  then show "\<exists>plays. play_decisions hands hand_values num_players = Inr plays" by blast
  show "well_shaped hands hand_values (num_players + 1)"
    by (rule play_decisions_Inr(1) [OF plays])
  from assms plays show "length M = length hands div (num_players + 1)"
    by (auto simp: GenerateMultipliers_def Let_def QUEEN_HIGH_eq)
qed

lemma GenerateMultipliers_cell:
  assumes run: "GenerateMultipliers orc hands hand_values num_players = Inr M"
    and r: "r < length M" and i: "i < num_players"
  shows "M ! r ! i =
     element_multipliers orc 1034
       (play_decision 936 990 1034 (hands ! (r * (num_players + 1)) ! 0)
          (hand_values ! (r * (num_players + 1) + i + 1)))
       (hand_values ! (r * (num_players + 1)))
       (hand_values ! (r * (num_players + 1) + i + 1))
       (hands ! (r * (num_players + 1)) @ hands ! (r * (num_players + 1) + i + 1))"
proof -
  define all_hands where "all_hands = num_players + 1"
  have pos: "0 < all_hands" and i': "Suc i < all_hands" "i + 1 < all_hands"
    using i by (simp_all add: all_hands_def)
  from GenerateMultipliers_Inr(1) [OF run] obtain plays
    where plays: "play_decisions hands hand_values num_players = Inr plays" by blast
  have shaped: "well_shaped hands hand_values all_hands"
    and len: "length M = length hands div all_hands"
    using GenerateMultipliers_Inr(2,3) [OF run] by (simp_all add: all_hands_def)
  from shaped have lens: "length hand_values = length hands"
    by (simp add: well_shaped_def)
  from r len have rh: "r < length hands div all_hands" by simp
  with lens have rv: "r < length hand_values div all_hands" by simp
  have rp: "r < length plays"
    using play_decisions_Inr(2) [OF plays] rh by (simp add: all_hands_def)
  from run plays have "M = map (\<lambda>r. map (\<lambda>i. element_multipliers orc 1034 (plays ! r ! i)
         (map hd (reshape_rows all_hands hand_values) ! r)
         (map tl (reshape_rows all_hands hand_values) ! r ! i)
         (map (\<lambda>i. map (\<lambda>round_hands. concat (take 2 (step_slice (i + 1) round_hands)))
                  (reshape_rows all_hands hands)) [0..<num_players] ! i ! r))
       [0..<num_players]) [0..<length hands div all_hands]"
    unfolding all_hands_def
    by (simp add: GenerateMultipliers_def Let_def QUEEN_HIGH_eq)
  then have "M ! r ! i = element_multipliers orc 1034 (plays ! r ! i)
         (hd (reshape_rows all_hands hand_values ! r))
         (tl (reshape_rows all_hands hand_values ! r) ! i)
         (concat (take 2 (step_slice (i + 1) (reshape_rows all_hands hands ! r))))"
    using rh rv i by (simp add: length_reshape_rows)
  also have "plays ! r ! i = play_decision 936 990 1034 (hands ! (r * (num_players + 1)) ! 0)
       (hand_values ! (r * (num_players + 1) + i + 1))"
    by (rule play_decisions_cell [OF plays rp i])
  also have "hd (reshape_rows all_hands hand_values ! r) = hand_values ! (r * all_hands)"
    by (rule row_hd [OF rv pos])
  also have "tl (reshape_rows all_hands hand_values ! r) ! i
      = hand_values ! (r * all_hands + Suc i)"
    by (rule row_tl_nth [OF rv i'(1)])
  also have "concat (take 2 (step_slice (i + 1) (reshape_rows all_hands hands ! r)))
      = hands ! (r * all_hands) @ hands ! (r * all_hands + i + 1)"
    by (rule six_cards_nth [OF rh i'(2)])
  finally show ?thesis
    unfolding all_hands_def by (simp add: add.assoc)
qed

lemma GenerateMultipliers_plays:
  assumes run: "GenerateMultipliers orc hands hand_values num_players = Inr M"
    and plays: "play_decisions hands hand_values num_players = Inr plays"
    and r: "r < length M" and i: "i < num_players"
  shows "M ! r ! i =
     element_multipliers orc 1034 (plays ! r ! i)
       (hand_values ! (r * (num_players + 1)))
       (hand_values ! (r * (num_players + 1) + i + 1))
       (hands ! (r * (num_players + 1)) @ hands ! (r * (num_players + 1) + i + 1))"
proof -
  have "length plays = length M"
    using play_decisions_Inr(2) [OF plays] GenerateMultipliers_Inr(3) [OF run] by simp
  with r have "r < length plays" by simp
  from play_decisions_cell [OF plays this i] show ?thesis
    by (simp add: GenerateMultipliers_cell [OF run r i])
qed

lemma face_up_ace: "drop_bit 8 (Card_new 12 Clubs) AND 0xF = 12"
  using card_rank_field [of 12 Clubs] by (simp add: get_rank_int_def)

text \<open>
  The values of the reference hands, as code equations: a concrete round is then evaluated
  without building the table again.
\<close>

declare ACE_HIGH_eq [code]

declare KING_HIGH_eq [code]

declare QUEEN_HIGH_eq [code]

lemma example_plays: "play_decisions example_hands [882, 882, 1135] 2 = Inr [[1, 0]]"
  by code_simp

lemma example_run:
  "GenerateMultipliers example_evaluator example_hands [882, 882, 1135] 2
     = Inr [[\<lparr>Play = 1, Ante = 1, PairPlus = - 1, SixCard = - 1\<rparr>,
             \<lparr>Play = 0, Ante = - 1, PairPlus = - 1, SixCard = - 1\<rparr>]]"
  by code_simp

subsection \<open>The play decision\<close>

text \<open>
  C8: the house way plays a hand whose value \<open>P\<close> is at most the ace-high threshold; above
  it, a hand at most the king-high threshold when the dealer's face-up card, the first card
  of the dealer's hand, ranks below an ace; above that, a hand at most the queen-high
  threshold when the face-up card ranks below a king; and folds every other hand. The
  thresholds are the values of the three reference hands, and the rank of a card is its rank
  index, 12 for an ace and 11 for a king.
\<close>

theorem house_way_play_decision:
  assumes "play_decisions hands hand_values num_players = Inr plays"
    and "r < length plays" and "i < num_players"
    and "hands ! (r * (num_players + 1)) ! 0 = Card_new rank s" and "rank < 13"
    and "ACE_HIGH = Inr ace_high" and "KING_HIGH = Inr king_high"
    and "QUEEN_HIGH = Inr queen_high"
  shows "plays ! r ! i =
      (let P = hand_values ! (r * (num_players + 1) + i + 1)
       in if P \<le> ace_high then 1
          else if P \<le> king_high \<and> int rank < ACE then 1
          else if P \<le> queen_high \<and> int rank < KING then 1
          else 0)
    \<and> (ace_high, king_high, queen_high) = (936, 990, 1034) \<and> (ACE, KING) = (12, 11)"
proof -
  have "drop_bit 8 (Card_new rank s) AND 0xF = int rank"
    using card_rank_field [OF assms(5), of s] by (simp add: get_rank_int_def)
  then show ?thesis
    using assms(6-8)
    unfolding play_decisions_cell [OF assms(1-3)] assms(4)
    by (simp add: play_decision_def ACE_HIGH_eq KING_HIGH_eq QUEEN_HIGH_eq ACE_eq KING_eq Let_def)
qed

theorem house_way_play_decision_witness:
  "play_decisions example_hands [882, 882, 1135] 2 = Inr [[1, 0]]
   \<and> example_hands ! (0 * (2 + 1)) ! 0 = Card_new 12 Clubs \<and> (12::nat) < 13
   \<and> ACE_HIGH = Inr 936 \<and> KING_HIGH = Inr 990 \<and> QUEEN_HIGH = Inr 1034
   \<and> [882, 882, 1135] ! (0 * (2 + 1) + 0 + 1) \<le> (936::int)
   \<and> [[1, 0]] ! 0 ! 0 = (1::int)
   \<and> \<not> [882, 882, 1135] ! (0 * (2 + 1) + 1 + 1) \<le> (1034::int)
   \<and> [[1, 0]] ! 0 ! 1 = (0::int)"
proof -
  have face: "example_hands ! (0 * (2 + 1)) ! 0 = Card_new 12 Clubs"
    by (simp add: example_hands_def)
  have first: "[[1, 0]] ! 0 ! 0 = (1::int)"
    using house_way_play_decision [of example_hands "[882, 882, 1135]" 2 "[[1, 0]]" 0 0
        12 Clubs 936 990 1034, OF example_plays _ _ face _ ACE_HIGH_eq KING_HIGH_eq QUEEN_HIGH_eq]
    by simp
  have second: "[[1, 0]] ! 0 ! 1 = (0::int)"
    using house_way_play_decision [of example_hands "[882, 882, 1135]" 2 "[[1, 0]]" 0 1
        12 Clubs 936 990 1034, OF example_plays _ _ face _ ACE_HIGH_eq KING_HIGH_eq QUEEN_HIGH_eq]
    by simp
  from first second show ?thesis
    using example_plays face by (simp add: ACE_HIGH_eq KING_HIGH_eq QUEEN_HIGH_eq)
qed

subsection \<open>The multipliers of a cell\<close>

text \<open>
  C4: for a player hand that is played, of evaluated value \<open>v\<close>, the Pair-Plus multiplier is
  \<open>-1\<close> above \<open>MAX_PAIR\<close>, 1 down to above \<open>MAX_FLUSH\<close>, 3 down to above
  \<open>MAX_STRAIGHT\<close>, 6 down to above \<open>MAX_TRIPS\<close>, 30 down to above
  \<open>MAX_STRAIGHT_FLUSH\<close>, 40 down to above 1, and 50 exactly for the value 1.
\<close>

theorem pair_plus_pay_table:
  assumes "GenerateMultipliers orc hands hand_values num_players = Inr M"
    and "play_decisions hands hand_values num_players = Inr plays"
    and "r < length M" and "i < num_players"
    and "valid_hand (hands ! (r * (num_players + 1) + i + 1))"
    and "distinct (hands ! (r * (num_players + 1) + i + 1))"
    and "evaluate_hand (hands ! (r * (num_players + 1) + i + 1))
           = Inr (hand_values ! (r * (num_players + 1) + i + 1))"
    and "plays ! r ! i \<noteq> 0"
  shows "(let v = hand_values ! (r * (num_players + 1) + i + 1); pp = PairPlus (M ! r ! i)
      in (MAX_PAIR < v \<longrightarrow> pp = - 1)
       \<and> (MAX_FLUSH < v \<and> v \<le> MAX_PAIR \<longrightarrow> pp = 1)
       \<and> (MAX_STRAIGHT < v \<and> v \<le> MAX_FLUSH \<longrightarrow> pp = 3)
       \<and> (MAX_TRIPS < v \<and> v \<le> MAX_STRAIGHT \<longrightarrow> pp = 6)
       \<and> (MAX_STRAIGHT_FLUSH < v \<and> v \<le> MAX_TRIPS \<longrightarrow> pp = 30)
       \<and> (1 < v \<and> v \<le> MAX_STRAIGHT_FLUSH \<longrightarrow> pp = 40)
       \<and> (pp = 50 \<longleftrightarrow> v = 1))
    \<and> (MAX_PAIR, MAX_FLUSH, MAX_STRAIGHT, MAX_TRIPS, MAX_STRAIGHT_FLUSH) = (872, 716, 442, 25, 12)"
proof -
  from evaluate_hand_range [OF assms(5,6)] assms(7)
  have positive: "1 \<le> hand_values ! (r * (num_players + 1) + i + 1)" by auto
  show ?thesis
    using assms(8) positive
    unfolding GenerateMultipliers_plays [OF assms(1-4)]
    by (simp add: element_multipliers_def pair_plus_multiplier_def Let_def MAX_PAIR_def
        MAX_FLUSH_def MAX_STRAIGHT_def MAX_TRIPS_def MAX_STRAIGHT_FLUSH_def)
qed

theorem pair_plus_pay_table_witness:
  "GenerateMultipliers example_evaluator example_hands [882, 882, 1135] 2
     = Inr [[\<lparr>Play = 1, Ante = 1, PairPlus = - 1, SixCard = - 1\<rparr>,
             \<lparr>Play = 0, Ante = - 1, PairPlus = - 1, SixCard = - 1\<rparr>]]
   \<and> play_decisions example_hands [882, 882, 1135] 2 = Inr [[1, 0]]
   \<and> valid_hand (example_hands ! (0 * (2 + 1) + 0 + 1))
   \<and> distinct (example_hands ! (0 * (2 + 1) + 0 + 1))
   \<and> evaluate_hand (example_hands ! (0 * (2 + 1) + 0 + 1))
         = Inr ([882, 882, 1135] ! (0 * (2 + 1) + 0 + 1))
   \<and> [[1, 0]] ! 0 ! 0 \<noteq> (0::int)
   \<and> MAX_PAIR < [882, 882, 1135] ! (0 * (2 + 1) + 0 + 1)
   \<and> PairPlus ([[\<lparr>Play = 1, Ante = 1, PairPlus = - 1, SixCard = - 1\<rparr>,
             \<lparr>Play = 0, Ante = - 1, PairPlus = - 1, SixCard = - 1\<rparr>]] ! 0 ! 0) = - 1"
proof -
  have valid: "valid_hand (example_hands ! (0 * (2 + 1) + 0 + 1))"
    by (simp add: example_hands_def valid_hand_def deck_member)
  have cards: "distinct (example_hands ! (0 * (2 + 1) + 0 + 1))"
    by (simp add: example_hands_def Card_new_def CARD_PRIMES_def)
  have val: "evaluate_hand (example_hands ! (0 * (2 + 1) + 0 + 1))
         = Inr ([882, 882, 1135] ! (0 * (2 + 1) + 0 + 1))"
    by (simp add: example_hands_def evaluate_hand_cards CARD_PRIMES_def dict_get_def
        tc_lookup_eq table_at_3034)
  have played: "[[1, 0]] ! 0 ! 0 \<noteq> (0::int)" by simp
  from pair_plus_pay_table [OF example_run example_plays _ _ valid cards val played]
  show ?thesis
    using example_run example_plays valid cards val by (simp add: MAX_PAIR_def)
qed

text \<open>
  C5: for a hand the house way folds, the Play multiplier is 0, the Ante multiplier is
  \<open>-1\<close> and the Pair-Plus multiplier is \<open>-1\<close>.
\<close>

theorem fold_forfeits:
  assumes "GenerateMultipliers orc hands hand_values num_players = Inr M"
    and "play_decisions hands hand_values num_players = Inr plays"
    and "r < length M" and "i < num_players"
    and "plays ! r ! i = 0"
  shows "Play (M ! r ! i) = 0 \<and> Ante (M ! r ! i) = - 1 \<and> PairPlus (M ! r ! i) = - 1"
  using assms(5)
  unfolding GenerateMultipliers_plays [OF assms(1-4)]
  by (simp add: element_multipliers_def play_multiplier_def ante_multiplier_def
      pair_plus_multiplier_def Let_def)

theorem fold_forfeits_witness:
  "GenerateMultipliers example_evaluator example_hands [882, 882, 1135] 2
     = Inr [[\<lparr>Play = 1, Ante = 1, PairPlus = - 1, SixCard = - 1\<rparr>,
             \<lparr>Play = 0, Ante = - 1, PairPlus = - 1, SixCard = - 1\<rparr>]]
   \<and> play_decisions example_hands [882, 882, 1135] 2 = Inr [[1, 0]]
   \<and> [[1, 0]] ! 0 ! 1 = (0::int)
   \<and> Play ([[\<lparr>Play = 1, Ante = 1, PairPlus = - 1, SixCard = - 1\<rparr>,
             \<lparr>Play = 0, Ante = - 1, PairPlus = - 1, SixCard = - 1\<rparr>]] ! 0 ! 1) = 0
   \<and> Ante ([[\<lparr>Play = 1, Ante = 1, PairPlus = - 1, SixCard = - 1\<rparr>,
             \<lparr>Play = 0, Ante = - 1, PairPlus = - 1, SixCard = - 1\<rparr>]] ! 0 ! 1) = - 1
   \<and> PairPlus ([[\<lparr>Play = 1, Ante = 1, PairPlus = - 1, SixCard = - 1\<rparr>,
             \<lparr>Play = 0, Ante = - 1, PairPlus = - 1, SixCard = - 1\<rparr>]] ! 0 ! 1) = - 1"
proof -
  have folded: "[[1, 0]] ! 0 ! 1 = (0::int)" by simp
  from fold_forfeits [OF example_run example_plays _ _ folded] show ?thesis
    using example_run example_plays by simp
qed

text \<open>
  C10: the 6-card multiplier of a player is the payout sweep applied to the value the 5-card
  evaluator gives to the dealer's three cards followed by the player's three; it does not
  depend on the hand values, and so not on the play decision.
\<close>

theorem six_card_bonus:
  assumes "GenerateMultipliers orc hands hand_values num_players = Inr M"
    and "r < length M" and "i < num_players"
  shows "SixCard (M ! r ! i) =
      (let v = six orc (hands ! (r * (num_players + 1)) @ hands ! (r * (num_players + 1) + i + 1))
       in if v > SC_MAX_TRIPS orc then - 1
          else if v > SC_MAX_STRAIGHT orc then 5
          else if v > SC_MAX_FLUSH orc then 10
          else if v > SC_MAX_FULL_HOUSE orc then 15
          else if v > SC_MAX_QUADS orc then 25
          else if v > SC_MAX_STRAIGHT_FLUSH orc then 50
          else if v > 1 then 200
          else 1000)
    \<and> (\<forall>other_values M'. GenerateMultipliers orc hands other_values num_players = Inr M'
          \<longrightarrow> SixCard (M' ! r ! i) = SixCard (M ! r ! i))"
proof -
  have same: "SixCard (M' ! r ! i) = SixCard (M ! r ! i)"
    if run': "GenerateMultipliers orc hands other_values num_players = Inr M'"
    for other_values M'
  proof -
    have "length M' = length M"
      using GenerateMultipliers_Inr(3) [OF run'] GenerateMultipliers_Inr(3) [OF assms(1)]
      by simp
    with assms(2) have r': "r < length M'" by simp
    show ?thesis
      unfolding GenerateMultipliers_cell [OF run' r' assms(3)]
        GenerateMultipliers_cell [OF assms]
      by (simp add: element_multipliers_def Let_def)
  qed
  have "SixCard (M ! r ! i) = six_card_multiplier orc
      (six orc (hands ! (r * (num_players + 1)) @ hands ! (r * (num_players + 1) + i + 1)))"
    unfolding GenerateMultipliers_cell [OF assms] by (simp add: element_multipliers_def Let_def)
  with same show ?thesis
    by (simp add: six_card_multiplier_def Let_def)
qed

theorem six_card_bonus_witness:
  "GenerateMultipliers example_evaluator example_hands [882, 882, 1135] 2
     = Inr [[\<lparr>Play = 1, Ante = 1, PairPlus = - 1, SixCard = - 1\<rparr>,
             \<lparr>Play = 0, Ante = - 1, PairPlus = - 1, SixCard = - 1\<rparr>]]
   \<and> six example_evaluator (example_hands ! (0 * (2 + 1)) @ example_hands ! (0 * (2 + 1) + 1 + 1))
       > SC_MAX_TRIPS example_evaluator
   \<and> SixCard ([[\<lparr>Play = 1, Ante = 1, PairPlus = - 1, SixCard = - 1\<rparr>,
             \<lparr>Play = 0, Ante = - 1, PairPlus = - 1, SixCard = - 1\<rparr>]] ! 0 ! 1) = - 1"
  using six_card_bonus [OF example_run, of 0 1] example_run
  by (simp add: example_evaluator_def)

subsection \<open>Ties\<close>

lemma played_value: "play_decision 936 990 1034 face_up P \<noteq> 0 \<Longrightarrow> P \<le> 1034"
  by (simp add: play_decision_def split: if_splits)

text \<open>
  Every played tie: the player's value equals the dealer's, so the dealer qualifies, and
  \<^const>\<open>win_lose\<close> is \<open>+1\<close>.
\<close>

lemma tie_multipliers:
  assumes "GenerateMultipliers orc hands hand_values num_players = Inr M"
    and "play_decisions hands hand_values num_players = Inr plays"
    and "r < length M" and "i < num_players"
    and "hand_values ! (r * (num_players + 1) + i + 1) = hand_values ! (r * (num_players + 1))"
    and "plays ! r ! i \<noteq> 0"
  shows "Ante (M ! r ! i) = 1 \<and> Play (M ! r ! i) = 1"
proof -
  have "length plays = length M"
    using play_decisions_Inr(2) [OF assms(2)] GenerateMultipliers_Inr(3) [OF assms(1)] by simp
  with assms(3) have "r < length plays" by simp
  from play_decisions_cell [OF assms(2) this assms(4)]
  have decision: "plays ! r ! i = play_decision 936 990 1034 (hands ! (r * (num_players + 1)) ! 0)
       (hand_values ! (r * (num_players + 1) + i + 1))" .
  with assms(6) have "hand_values ! (r * (num_players + 1) + i + 1) \<le> 1034"
    by (intro played_value [of "hands ! (r * (num_players + 1)) ! 0"]) simp
  moreover have "plays ! r ! i = 1"
    using assms(6) unfolding decision by (simp add: play_decision_def split: if_splits)
  ultimately show ?thesis
    using assms(5)
    unfolding GenerateMultipliers_plays [OF assms(1-4)]
    by (simp add: element_multipliers_def play_multiplier_def ante_multiplier_def
        win_lose_def copysign_def Let_def)
qed

text \<open>
  C1, as the code runs: the dealer holds ace, king, deuce of three suits and the only player
  the same ranks in other suits. Both hands have the value 882, the hand is played and the
  dealer qualifies; the Ante and Play multipliers of the tie are both \<open>+1\<close>.
\<close>

theorem tie_is_paid_as_a_win:
  "evaluate_hands [[Card_new 12 Clubs, Card_new 11 Diamonds, Card_new 0 Hearts],
                   [Card_new 12 Diamonds, Card_new 11 Hearts, Card_new 0 Spades]]
     = Inr [882, 882]
   \<and> GenerateMultipliers orc
        [[Card_new 12 Clubs, Card_new 11 Diamonds, Card_new 0 Hearts],
         [Card_new 12 Diamonds, Card_new 11 Hearts, Card_new 0 Spades]] [882, 882] 1
     = Inr [[\<lparr>Play = 1, Ante = 1, PairPlus = - 1,
              SixCard = six_card_multiplier orc (six orc
                [Card_new 12 Clubs, Card_new 11 Diamonds, Card_new 0 Hearts,
                 Card_new 12 Diamonds, Card_new 11 Hearts, Card_new 0 Spades])\<rparr>]]"
proof -
  have "evaluate_hands [[Card_new 12 Clubs, Card_new 11 Diamonds, Card_new 0 Hearts],
                   [Card_new 12 Diamonds, Card_new 11 Hearts, Card_new 0 Spades]]
     = Inr [882, 882]"
    by (simp add: evaluate_hands_Cons evaluate_hands_single evaluate_hand_cards
        CARD_PRIMES_def dict_get_def tc_lookup_eq table_at_3034)
  moreover have "GenerateMultipliers orc
        [[Card_new 12 Clubs, Card_new 11 Diamonds, Card_new 0 Hearts],
         [Card_new 12 Diamonds, Card_new 11 Hearts, Card_new 0 Spades]] [882, 882] 1
     = Inr [[\<lparr>Play = 1, Ante = 1, PairPlus = - 1,
              SixCard = six_card_multiplier orc (six orc
                [Card_new 12 Clubs, Card_new 11 Diamonds, Card_new 0 Hearts,
                 Card_new 12 Diamonds, Card_new 11 Hearts, Card_new 0 Spades])\<rparr>]]"
    by code_simp simp
  ultimately show ?thesis by simp
qed

end
